theory Spec2Isabelle
  imports Complex_Main "HOL-Library.Word"
begin

unbundle bit_operations_syntax

section \<open>Python strings\<close>

text \<open>
  A Python \<open>str\<close> is a sequence of Unicode code points and \<open>len\<close> counts code points,
  so a string is modelled as a list of code points. \<open>u\<close> embeds an ASCII literal.
\<close>

type_synonym ustr = "nat list"

definition u :: "string \<Rightarrow> ustr" where
  "u s = map of_char s"

text \<open>
  \<open>str.isspace\<close>, and with it \<open>str.strip()\<close> and the class \<open>\s\<close> of \<open>re\<close> on a
  \<open>str\<close> pattern: the 29 white-space code points of CPython's Unicode database.
\<close>

definition isspace :: "nat \<Rightarrow> bool" where
  "isspace c \<longleftrightarrow>
     (9 \<le> c \<and> c \<le> 13) \<or> (28 \<le> c \<and> c \<le> 32) \<or> c = 133 \<or> c = 160 \<or> c = 5760 \<or>
     (8192 \<le> c \<and> c \<le> 8202) \<or> c = 8232 \<or> c = 8233 \<or> c = 8239 \<or> c = 8287 \<or> c = 12288"

definition strip :: "ustr \<Rightarrow> ustr" where
  "strip s = rev (dropWhile isspace (rev (dropWhile isspace s)))"

definition is_upper_ascii :: "nat \<Rightarrow> bool" where
  "is_upper_ascii c \<longleftrightarrow> 65 \<le> c \<and> c \<le> 90"

definition is_lower_ascii :: "nat \<Rightarrow> bool" where
  "is_lower_ascii c \<longleftrightarrow> 97 \<le> c \<and> c \<le> 122"

definition lower_ascii :: "nat \<Rightarrow> nat" where
  "lower_ascii c = (if is_upper_ascii c then c + 32 else c)"

text \<open>
  \<open>str.istitle\<close>: an upper-case letter may only follow an uncased character, a lower-case
  letter only a cased one, and there is at least one cased character. The state is
  (previous character is cased, a cased character was seen).
\<close>

fun istitle_loop :: "bool \<Rightarrow> bool \<Rightarrow> ustr \<Rightarrow> bool" where
  "istitle_loop prev cased [] = cased"
| "istitle_loop prev cased (c # s) =
     (if is_upper_ascii c then (if prev then False else istitle_loop True True s)
      else if is_lower_ascii c then (if \<not> prev then False else istitle_loop True True s)
      else istitle_loop False cased s)"

section \<open>Python floats\<close>

text \<open>
  A Python \<open>float\<close> is an IEEE double. Font sizes, coordinates and scores are finite
  doubles and are modelled by their values, which are rationals; finite doubles compare
  as their values do. An arithmetic operation returns its exact result rounded to a
  double: to the nearest one, to the even one of two that are equally near, with 53
  bits and gradual underflow. A result beyond the largest double is not modelled:
  MuPDF holds sizes and coordinates in single precision, and no sum or quotient of the
  program on such values leaves the range of the doubles.
\<close>

text \<open>The number of binary digits of a natural number.\<close>

fun bit_length :: "nat \<Rightarrow> nat" where
  "bit_length n = (if n = 0 then 0 else Suc (bit_length (n div 2)))"

declare bit_length.simps [simp del]

definition pow2 :: "int \<Rightarrow> rat" where
  "pow2 k = (if 0 \<le> k then 2 ^ nat k else 1 / 2 ^ nat (- k))"

text \<open>For \<open>x > 0\<close>, the exponent \<open>e\<close> with \<open>2 ^ e \<le> x < 2 ^ (e + 1)\<close>.\<close>

definition floor_log2 :: "rat \<Rightarrow> int" where
  "floor_log2 x =
     (if 1 \<le> x then int (bit_length (nat \<lfloor>x\<rfloor>)) - 1
      else - int (bit_length (nat (\<lceil>1 / x\<rceil> - 1))))"

definition round_half_even :: "rat \<Rightarrow> int" where
  "round_half_even m =
     (let f = \<lfloor>m\<rfloor>;
          r = m - of_int f
      in if r < 1 / 2 then f else if r > 1 / 2 then f + 1 else if even f then f else f + 1)"

definition round_double :: "rat \<Rightarrow> rat" where
  "round_double x =
     (if x = 0 then 0
      else let e = max (floor_log2 \<bar>x\<bar>) (- 1022);
               q = pow2 (e - 52)
           in of_int (round_half_even (x / q)) * q)"

text \<open>The float literals \<open>1.8\<close> and \<open>1.2\<close>: the doubles nearest to 9/5 and 6/5.\<close>

definition float_1_8 :: rat where
  "float_1_8 = 8106479329266893 / 4503599627370496"

definition float_1_2 :: rat where
  "float_1_2 = 5404319552844595 / 4503599627370496"

section \<open>The runtime\<close>

text \<open>
  What the program takes from the interpreter and the hardware. First the parts of
  Python's Unicode database that it reaches through \<open>str.lower\<close>, \<open>str.isupper\<close>,
  \<open>str.istitle\<close>, the class \<open>\d\<close> and \<open>re.IGNORECASE\<close>, whose tables depend on the
  interpreter's Unicode version; then the float operations \<open>+\<close>, \<open>-\<close>, \<open>*\<close>, \<open>/\<close> and
  the builtin \<open>sum\<close> on floats, which adds from the left up to Python 3.11 and
  compensates for rounding from 3.12 on. They are a parameter of the model: every
  theorem below holds for each choice.
  \<open>ascii_runtime\<close> is the choice that agrees with Python on ASCII text and has the IEEE
  operations, with \<open>sum\<close> adding from the left; it is used to evaluate concrete inputs.
\<close>

record runtime =
  py_lower :: "ustr \<Rightarrow> ustr"
  py_isupper :: "ustr \<Rightarrow> bool"
  py_istitle :: "ustr \<Rightarrow> bool"
  py_decimal :: "nat \<Rightarrow> bool"
  py_ieq :: "nat \<Rightarrow> nat \<Rightarrow> bool"
  py_add :: "rat \<Rightarrow> rat \<Rightarrow> rat"
  py_sub :: "rat \<Rightarrow> rat \<Rightarrow> rat"
  py_mul :: "rat \<Rightarrow> rat \<Rightarrow> rat"
  py_div :: "rat \<Rightarrow> rat \<Rightarrow> rat"
  py_sum :: "rat list \<Rightarrow> rat"

definition ascii_runtime :: runtime where
  "ascii_runtime = \<lparr>
     py_lower = map lower_ascii,
     py_isupper = (\<lambda>s. list_ex is_upper_ascii s \<and> \<not> list_ex is_lower_ascii s),
     py_istitle = istitle_loop False False,
     py_decimal = (\<lambda>c. 48 \<le> c \<and> c \<le> 57),
     py_ieq = (\<lambda>a c. lower_ascii a = lower_ascii c),
     py_add = (\<lambda>a b. round_double (a + b)),
     py_sub = (\<lambda>a b. round_double (a - b)),
     py_mul = (\<lambda>a b. round_double (a * b)),
     py_div = (\<lambda>a b. round_double (a / b)),
     py_sum = foldl (\<lambda>a b. round_double (a + b)) 0 \<rparr>"

text \<open>\<open>sub in s\<close> on strings: \<open>sub\<close> occurs in \<open>s\<close> as a contiguous substring.\<close>

fun starts_with :: "ustr \<Rightarrow> ustr \<Rightarrow> bool" where
  "starts_with [] s = True"
| "starts_with (a # sub) [] = False"
| "starts_with (a # sub) (c # s) = (a = c \<and> starts_with sub s)"

fun contains :: "ustr \<Rightarrow> ustr \<Rightarrow> bool" where
  "contains sub [] = (sub = [])"
| "contains sub (c # s) = (starts_with sub (c # s) \<or> contains sub s)"

section \<open>utils.clean_text\<close>

text \<open>
  \<open>re.sub(pattern, repl, s)\<close> scans \<open>s\<close> from the left: where the pattern matches, the
  match is replaced and the scan goes on behind it, elsewhere the character is kept.
  The pattern is given by its matcher, which returns the rest of the string behind the
  match at the current position. None of the patterns below matches the empty string.
\<close>

function re_sub :: "(ustr \<Rightarrow> ustr option) \<Rightarrow> ustr \<Rightarrow> ustr \<Rightarrow> ustr" where
  "re_sub m repl [] = []"
| "re_sub m repl (c # s) =
     (case m (c # s) of
        None \<Rightarrow> c # re_sub m repl s
      | Some rest \<Rightarrow>
          if length rest \<le> length s then repl @ re_sub m repl rest
          else c # re_sub m repl s)"
  by pat_completeness auto
termination
  by (relation "measure (\<lambda>(m, repl, s). length s)") auto

text \<open>\<open>\s+\<close>: a white-space character and all white space behind it.\<close>

definition m_spaces :: "ustr \<Rightarrow> ustr option" where
  "m_spaces s = (case s of [] \<Rightarrow> None
                 | c # t \<Rightarrow> if isspace c then Some (dropWhile isspace t) else None)"

text \<open>\<open>[^\x20-\x7E\u00A0-\uFFFF]\<close>: one character outside both ranges.\<close>

definition printable :: "nat \<Rightarrow> bool" where
  "printable c \<longleftrightarrow> (32 \<le> c \<and> c \<le> 126) \<or> (160 \<le> c \<and> c \<le> 65535)"

definition m_unprintable :: "ustr \<Rightarrow> ustr option" where
  "m_unprintable s = (case s of [] \<Rightarrow> None
                      | c # t \<Rightarrow> if printable c then None else Some t)"

text \<open>\<open>\.{3,}\<close>: three or more dots, greedily all of the run.\<close>

definition dot :: nat where
  "dot = 46"

definition m_dots :: "ustr \<Rightarrow> ustr option" where
  "m_dots s = (if 3 \<le> length (takeWhile (\<lambda>c. c = dot) s)
               then Some (dropWhile (\<lambda>c. c = dot) s) else None)"

text \<open>
  \<open>\s*\.\s*\.\s*\.\<close>: three dots, each after any white space. A dot is not white space,
  so each \<open>\s*\<close> takes all the white space there is and never gives any back.
\<close>

definition m_spaced_dot :: "ustr \<Rightarrow> ustr option" where
  "m_spaced_dot s = (case dropWhile isspace s of [] \<Rightarrow> None
                     | c # t \<Rightarrow> if c = dot then Some t else None)"

definition m_spaced_dots :: "ustr \<Rightarrow> ustr option" where
  "m_spaced_dots s =
     (case m_spaced_dot s of None \<Rightarrow> None
      | Some s1 \<Rightarrow> (case m_spaced_dot s1 of None \<Rightarrow> None
      | Some s2 \<Rightarrow> m_spaced_dot s2))"

definition clean_text :: "ustr \<Rightarrow> ustr" where
  "clean_text text0 =
     (let text1 = re_sub m_spaces (u '' '') (strip text0);
          text2 = re_sub m_unprintable [] text1;
          text3 = re_sub m_dots (u ''...'') text2;
          text4 = re_sub m_spaced_dots (u ''...'') text3
      in strip text4)"

section \<open>Outline items and the hierarchy repair (outline_extractor)\<close>

text \<open>An outline item is the dictionary \<open>{"level": ..., "text": ..., "page": ...}\<close>.\<close>

record item =
  it_level :: ustr
  it_text :: ustr
  it_page :: int

text \<open>\<open>level_map.get(l, 1)\<close> and \<open>reverse_map.get(n, "h1")\<close> of \<open>_fix_hierarchy\<close>.\<close>

definition level_map :: "ustr \<Rightarrow> int" where
  "level_map l =
     (if l = u ''h1'' then 1 else if l = u ''h2'' then 2 else if l = u ''h3'' then 3
      else if l = u ''h4'' then 4 else if l = u ''h5'' then 5 else if l = u ''h6'' then 6
      else 1)"

definition reverse_map :: "int \<Rightarrow> ustr" where
  "reverse_map n =
     (if n = 1 then u ''h1'' else if n = 2 then u ''h2'' else if n = 3 then u ''h3''
      else if n = 4 then u ''h4'' else if n = 5 then u ''h5'' else if n = 6 then u ''h6''
      else u ''h1'')"

text \<open>
  The loop of \<open>_fix_hierarchy\<close>, with \<open>current_level\<close> as its state. The source rewrites
  the level of each dictionary in place and returns the same list.
\<close>

fun fix_loop :: "int \<Rightarrow> item list \<Rightarrow> item list" where
  "fix_loop current_level [] = []"
| "fix_loop current_level (it # outline) =
     (let level_num = level_map (it_level it);
          level_num = (if level_num > current_level + 1 then current_level + 1 else level_num)
      in it\<lparr>it_level := reverse_map level_num\<rparr> # fix_loop level_num outline)"

definition fix_hierarchy :: "item list \<Rightarrow> item list" where
  "fix_hierarchy outline = (if outline = [] then [] else fix_loop 1 outline)"

text \<open>The duplicate filter of \<open>_refine_outline\<close>, with the set \<open>seen\<close> as its state.\<close>

fun remove_duplicates :: "runtime \<Rightarrow> (ustr \<times> int) set \<Rightarrow> item list \<Rightarrow> item list" where
  "remove_duplicates U seen [] = []"
| "remove_duplicates U seen (it # outline) =
     (let key = (py_lower U (it_text it), it_page it)
      in if key \<notin> seen then it # remove_duplicates U (insert key seen) outline
         else remove_duplicates U seen outline)"

text \<open>\<open>list.sort(key=...)\<close> is stable, as \<open>sort_key\<close> is.\<close>

definition refine_outline :: "runtime \<Rightarrow> item list \<Rightarrow> item list" where
  "refine_outline U outline =
     (if outline = [] then []
      else fix_hierarchy (sort_key it_page (remove_duplicates U {} outline)))"

section \<open>utils.normalize_level and the bookmark strategy\<close>

text \<open>\<open>f"h{level}"\<close> after the clamp: the level is one digit between 1 and 6.\<close>

definition normalize_level :: "int \<Rightarrow> ustr" where
  "normalize_level level0 =
     (let level = max 1 (min 6 level0)
      in u ''h'' @ [48 + nat level])"

text \<open>
  The document as the program sees it through PyMuPDF. A fault of the library or of the
  data is a value: \<open>get_toc\<close> may raise, loading a page with \<open>doc[page_num]\<close> may raise,
  \<open>get_text\<close> may raise on a loaded page, the metadata title may be missing or \<open>None\<close>,
  the bounding box of a span may be missing or too short, and the style flags of a span
  may be a value that is not an integer (\<open>None\<close> in the model), on which \<open>&\<close> raises
  \<open>TypeError\<close>.
\<close>

datatype error = AttributeError | IndexError | RuntimeError | TypeError

record span =
  sp_text :: ustr
  sp_size :: rat
  sp_flags :: "int option"
  sp_bbox :: "rat list option"

datatype block = ImageBlock | TextBlock "span list list"

datatype page = Unreadable | Page "block list"

datatype meta_title = NoTitle | NoneTitle | Title ustr

type_synonym toc_entry = "int \<times> ustr \<times> int"

text \<open>An entry of \<open>doc_pages\<close> is what \<open>doc[page_num]\<close> gives: a fault or the page.\<close>

record document =
  doc_metadata_title :: meta_title
  doc_toc :: "error + toc_entry list"
  doc_pages :: "(error + page) list"

definition page_count :: "document \<Rightarrow> int" where
  "page_count doc = int (length (doc_pages doc))"

text \<open>The loop of \<open>_extract_from_bookmarks\<close> over the entries of the table of contents.\<close>

fun bookmark_loop :: "int \<Rightarrow> toc_entry list \<Rightarrow> item list" where
  "bookmark_loop count [] = []"
| "bookmark_loop count ((level, title, page) # toc) =
     (let clean_title = clean_text title
      in if clean_title = [] \<or> length clean_title < 2 then bookmark_loop count toc
         else \<lparr>it_level = normalize_level level, it_text = clean_title,
               it_page = max 1 (min page count)\<rparr> # bookmark_loop count toc)"

definition extract_from_bookmarks_try :: "document \<Rightarrow> error + item list" where
  "extract_from_bookmarks_try doc =
     (case doc_toc doc of
        Inl e \<Rightarrow> Inl e
      | Inr toc \<Rightarrow> if toc = [] then Inr [] else Inr (bookmark_loop (page_count doc) toc))"

definition extract_from_bookmarks :: "document \<Rightarrow> item list" where
  "extract_from_bookmarks doc =
     (case extract_from_bookmarks_try doc of Inl e \<Rightarrow> [] | Inr outline \<Rightarrow> outline)"

section \<open>Regular expressions\<close>

text \<open>
  The patterns that the program only tests for a match are regular expressions over
  character classes. \<open>re.match\<close> succeeds when some prefix of the string is in the
  language of the pattern, which is decided by derivatives.
\<close>

datatype rx = Nul | Eps | Sym "nat \<Rightarrow> bool" | Alt rx rx | Cat rx rx | Star rx

fun nullable :: "rx \<Rightarrow> bool" where
  "nullable Nul = False"
| "nullable Eps = True"
| "nullable (Sym P) = False"
| "nullable (Alt r s) = (nullable r \<or> nullable s)"
| "nullable (Cat r s) = (nullable r \<and> nullable s)"
| "nullable (Star r) = True"

fun deriv :: "nat \<Rightarrow> rx \<Rightarrow> rx" where
  "deriv c Nul = Nul"
| "deriv c Eps = Nul"
| "deriv c (Sym P) = (if P c then Eps else Nul)"
| "deriv c (Alt r s) = Alt (deriv c r) (deriv c s)"
| "deriv c (Cat r s) =
     (if nullable r then Alt (Cat (deriv c r) s) (deriv c s) else Cat (deriv c r) s)"
| "deriv c (Star r) = Cat (deriv c r) (Star r)"

fun re_match :: "rx \<Rightarrow> ustr \<Rightarrow> bool" where
  "re_match r [] = nullable r"
| "re_match r (c # s) = (nullable r \<or> re_match (deriv c r) s)"

text \<open>
  A pattern \<open>^p$\<close>: the whole string is in the language of \<open>p\<close>, where \<open>$\<close> also
  matches before a newline that ends the string.
\<close>

fun re_fullmatch :: "rx \<Rightarrow> ustr \<Rightarrow> bool" where
  "re_fullmatch r [] = nullable r"
| "re_fullmatch r (c # s) = re_fullmatch (deriv c r) s"

definition dollar :: rx where
  "dollar = Alt Eps (Sym (\<lambda>c. c = 10))"

definition Plus :: "rx \<Rightarrow> rx" where
  "Plus r = Cat r (Star r)"

definition Opt :: "rx \<Rightarrow> rx" where
  "Opt r = Alt r Eps"

fun Lit :: "ustr \<Rightarrow> rx" where
  "Lit [] = Eps"
| "Lit (c # s) = Cat (Sym (\<lambda>x. x = c)) (Lit s)"

text \<open>A literal under \<open>re.IGNORECASE\<close>.\<close>

fun LitI :: "runtime \<Rightarrow> ustr \<Rightarrow> rx" where
  "LitI U [] = Eps"
| "LitI U (c # s) = Cat (Sym (py_ieq U c)) (LitI U s)"

definition digit :: "runtime \<Rightarrow> rx" where
  "digit U = Sym (py_decimal U)"

definition space :: rx where
  "space = Sym isspace"

definition any_char :: rx where
  "any_char = Sym (\<lambda>c. c \<noteq> 10)"

definition one_of :: "ustr \<Rightarrow> rx" where
  "one_of cs = Sym (\<lambda>c. c \<in> set cs)"

definition capital :: rx where
  "capital = Sym is_upper_ascii"

text \<open>A class of letters under \<open>re.IGNORECASE\<close>.\<close>

definition one_of_I :: "runtime \<Rightarrow> ustr \<Rightarrow> rx" where
  "one_of_I U cs = Sym (\<lambda>c. list_ex (\<lambda>a. py_ieq U a c) cs)"

fun seq :: "rx list \<Rightarrow> rx" where
  "seq [] = Eps"
| "seq (r # rs) = Cat r (seq rs)"

fun alts :: "rx list \<Rightarrow> rx" where
  "alts [] = Nul"
| "alts (r # rs) = Alt r (alts rs)"

definition period :: rx where
  "period = Sym (\<lambda>c. c = 46)"

text \<open>\<open>re.search\<close> with a pattern that has no anchor: a match may start anywhere.\<close>

fun re_search :: "rx \<Rightarrow> ustr \<Rightarrow> bool" where
  "re_search r [] = re_match r []"
| "re_search r (c # s) = (re_match r (c # s) \<or> re_search r s)"

section \<open>utils.detect_heading_level\<close>

text \<open>
  The five patterns of the first chain, each tried with \<open>re.match\<close>:
  \<open>^\d+\.\d+\.\d+\<close>, \<open>^\d+\.\d+\<close>, \<open>^\d+\.?\<close>, \<open>^[IVX]+\.?\<close> and \<open>^[A-Z]\.\<close>.
\<close>

definition pat_num3 :: "runtime \<Rightarrow> rx" where
  "pat_num3 U = seq [Plus (digit U), period, Plus (digit U), period, Plus (digit U)]"

definition pat_num2 :: "runtime \<Rightarrow> rx" where
  "pat_num2 U = seq [Plus (digit U), period, Plus (digit U)]"

definition pat_num1 :: "runtime \<Rightarrow> rx" where
  "pat_num1 U = seq [Plus (digit U), Opt period]"

definition pat_roman :: rx where
  "pat_roman = seq [Plus (one_of (u ''IVX'')), Opt period]"

definition pat_letter :: rx where
  "pat_letter = seq [capital, period]"

text \<open>
  The ratio is the rounded quotient of the two floats; \<open>1.5\<close> is a double, \<open>1.8\<close> and
  \<open>1.2\<close> are the doubles nearest to them.
\<close>

definition detect_heading_level ::
  "runtime \<Rightarrow> ustr \<Rightarrow> rat \<Rightarrow> int option \<Rightarrow> rat \<Rightarrow> ustr" where
  "detect_heading_level U text font_size flags avg_font_size =
     (let text_lower = py_lower U text
      in if re_match (pat_num3 U) text then u ''h3''
         else if re_match (pat_num2 U) text then u ''h2''
         else if re_match (pat_num1 U) text then u ''h1''
         else if re_match pat_roman text then u ''h1''
         else if re_match pat_letter text then u ''h2''
         else if contains (u ''chapter'') text_lower \<or> contains (u ''part'') text_lower
           then u ''h1''
         else if contains (u ''section'') text_lower then u ''h2''
         else if contains (u ''subsection'') text_lower then u ''h3''
         else
           (let size_ratio =
                  (if avg_font_size > 0 then py_div U font_size avg_font_size else 1)
            in if size_ratio \<ge> float_1_8 then u ''h1''
               else if size_ratio \<ge> 3 / 2 then u ''h2''
               else if size_ratio \<ge> float_1_2 then u ''h3''
               else u ''h4''))"

section \<open>utils.is_likely_title\<close>

text \<open>
  \<open>non_title_patterns\<close>, searched in the lower-cased text. All but the last are anchored
  at the start by \<open>^\<close>, so \<open>re.search\<close> can only match there.
\<close>

definition non_title_patterns :: "runtime \<Rightarrow> (ustr \<Rightarrow> bool) list" where
  "non_title_patterns U =
     [re_fullmatch (seq [Plus (digit U), dollar]),
      re_match (seq [Lit (u ''page''), Plus space, Plus (digit U)]),
      re_match (seq [Plus (digit U), Star space, Lit (u ''of''), Star space, Plus (digit U)]),
      re_match (alts [Lit (u ''table''), Lit (u ''figure''), Lit (u ''chart''),
                      Lit (u ''diagram'')]),
      re_match (alts [Lit (u ''see''), Lit (u ''refer''), Lit (u ''note''),
                      Lit (u ''example'')]),
      re_match (alts [Lit (u ''http''), Lit (u ''www''), Lit (u ''ftp'')]),
      re_search (Lit (u ''@''))]"

text \<open>\<open>title_indicators\<close>, searched in the text as it is.\<close>

definition title_indicators :: "runtime \<Rightarrow> (ustr \<Rightarrow> bool) list" where
  "title_indicators U =
     [re_match (seq [alts [Lit (u ''chapter''), Lit (u ''section''), Lit (u ''part'')],
                     Plus space, Plus (digit U)]),
      re_match (seq [Plus (digit U), Opt period, Plus space, capital]),
      re_match (seq [Plus (one_of (u ''IVX'')), Opt period, Plus space, capital])]"

definition ascii_letter :: rx where
  "ascii_letter = Sym (\<lambda>c. is_lower_ascii c \<or> is_upper_ascii c)"

definition is_likely_title :: "runtime \<Rightarrow> ustr \<Rightarrow> bool" where
  "is_likely_title U text =
     (if text = [] \<or> length text < 3 then False
      else let text_lower = py_lower U text
      in if length text > 200 then False
         else if list_ex (\<lambda>pattern. pattern text_lower) (non_title_patterns U) then False
         else if list_ex (\<lambda>pattern. pattern text) (title_indicators U) then True
         else if py_isupper U [text ! 0] \<and> re_search ascii_letter text \<and>
                 (\<not> py_isupper U text \<or> length text \<le> 50) then True
         else False)"

section \<open>The content strategy of outline_extractor\<close>

text \<open>
  \<open>heading_patterns\<close>, each tried with \<open>re.match\<close> under \<open>re.IGNORECASE\<close>; the groups
  play no part in whether a pattern matches.
\<close>

definition heading_patterns :: "runtime \<Rightarrow> rx list" where
  "heading_patterns U =
     [seq [Plus (digit U), Opt period, Plus space, Plus any_char],
      seq [Plus (one_of_I U (u ''IVX'')), Opt period, Plus space, Plus any_char],
      seq [one_of_I U [65 ..< 91], Opt period, Plus space, Plus any_char],
      seq [LitI U (u ''Chapter''), Plus space, Plus (digit U), Plus any_char],
      seq [LitI U (u ''Section''), Plus space, Plus (digit U), Plus any_char],
      seq [Plus (digit U), period, Plus (digit U), Plus space, Plus any_char],
      seq [Plus (digit U), period, Plus (digit U), period, Plus (digit U), Plus space,
           Plus any_char]]"

definition level_indicators :: "ustr list" where
  "level_indicators =
     [u ''chapter'', u ''section'', u ''subsection'', u ''part'', u ''appendix'']"

text \<open>
  The bold flag: \<open>flags & 2**4\<close> is not zero. On flags that are not an integer the
  operator raises.
\<close>

definition bold :: "int \<Rightarrow> bool" where
  "bold flags \<longleftrightarrow> flags AND 16 \<noteq> 0"

definition bold_flag :: "int option \<Rightarrow> error + bool" where
  "bold_flag flags = (case flags of None \<Rightarrow> Inl TypeError | Some f \<Rightarrow> Inr (bold f))"

definition is_likely_heading ::
  "runtime \<Rightarrow> ustr \<Rightarrow> rat \<Rightarrow> int option \<Rightarrow> rat \<Rightarrow> error + bool" where
  "is_likely_heading U text font_size flags avg_font_size =
     (if length text < 3 \<or> length text > 200 then Inr False
      else if font_size > py_mul U avg_font_size float_1_2 then Inr True
      else
        (case bold_flag flags of
           Inl e \<Rightarrow> Inl e
         | Inr is_bold \<Rightarrow>
             if is_bold \<and> length text < 100 then Inr True
             else if list_ex (\<lambda>pattern. re_match pattern text) (heading_patterns U)
               then Inr True
             else let lower_text = py_lower U text
             in if list_ex (\<lambda>indicator. contains indicator lower_text) level_indicators
                  then Inr True
                else Inr False))"

text \<open>The dictionaries that \<open>_find_headings_on_page\<close> collects, one for each span.\<close>

record text_span =
  ts_text :: ustr
  ts_size :: rat
  ts_flags :: "int option"
  ts_y :: rat

text \<open>\<open>b[1]\<close> on a list raises \<open>IndexError\<close> when the list has fewer than two elements.\<close>

definition index1 :: "rat list \<Rightarrow> error + rat" where
  "index1 b = (if 1 < length b then Inr (b ! 1) else Inl IndexError)"

text \<open>The spans of a page in the order of its blocks and lines; image blocks have none.\<close>

fun block_spans :: "block \<Rightarrow> span list" where
  "block_spans ImageBlock = []"
| "block_spans (TextBlock lines) = concat lines"

fun collect_text_spans :: "span list \<Rightarrow> error + text_span list" where
  "collect_text_spans [] = Inr []"
| "collect_text_spans (sp # spans) =
     (let text = strip (sp_text sp)
      in if text \<noteq> [] then
           (case index1 (case sp_bbox sp of None \<Rightarrow> [0, 0, 0, 0] | Some b \<Rightarrow> b) of
              Inl e \<Rightarrow> Inl e
            | Inr y \<Rightarrow>
                (case collect_text_spans spans of
                   Inl e \<Rightarrow> Inl e
                 | Inr text_spans \<Rightarrow>
                     Inr (\<lparr>ts_text = text, ts_size = sp_size sp, ts_flags = sp_flags sp,
                           ts_y = y\<rparr> # text_spans)))
         else collect_text_spans spans)"

text \<open>\<open>sum(...) / len(text_spans)\<close>, both in float arithmetic.\<close>

definition calculate_average_font_size :: "runtime \<Rightarrow> text_span list \<Rightarrow> rat" where
  "calculate_average_font_size U text_spans =
     (if text_spans = [] then 12
      else py_div U (py_sum U (map ts_size text_spans)) (of_nat (length text_spans)))"

text \<open>
  The loop of \<open>_find_headings_on_page\<close> over the sorted spans. Its state is the list
  \<open>headings\<close>, which the function returns also when an exception ends the loop: the
  result is the list as it is then, with the exception that was caught, if any.
\<close>

fun headings_loop ::
  "runtime \<Rightarrow> rat \<Rightarrow> int \<Rightarrow> text_span list \<Rightarrow> item list \<Rightarrow> item list \<times> error option" where
  "headings_loop U avg_font_size page_num [] headings = (headings, None)"
| "headings_loop U avg_font_size page_num (sp # text_spans) headings =
     (case is_likely_heading U (ts_text sp) (ts_size sp) (ts_flags sp) avg_font_size of
        Inl e \<Rightarrow> (headings, Some e)
      | Inr likely \<Rightarrow>
          if likely then
            headings_loop U avg_font_size page_num text_spans
              (headings @
               [\<lparr>it_level = detect_heading_level U (ts_text sp) (ts_size sp) (ts_flags sp)
                              avg_font_size,
                 it_text = clean_text (ts_text sp), it_page = page_num\<rparr>])
          else headings_loop U avg_font_size page_num text_spans headings)"

text \<open>
  \<open>_find_headings_on_page\<close> with its handler: \<open>headings\<close> is empty when \<open>get_text\<close>, the
  collection of the spans, the sort or the average fails, and holds the headings found
  so far when the analysis of a span fails.
\<close>

definition find_headings_run :: "runtime \<Rightarrow> page \<Rightarrow> int \<Rightarrow> item list \<times> error option" where
  "find_headings_run U page page_num =
     (case page of
        Unreadable \<Rightarrow> ([], Some RuntimeError)
      | Page blocks \<Rightarrow>
          (case collect_text_spans (concat (map block_spans blocks)) of
             Inl e \<Rightarrow> ([], Some e)
           | Inr spans \<Rightarrow>
               (let text_spans = sort_key ts_y spans;
                    avg_font_size = calculate_average_font_size U text_spans
                in headings_loop U avg_font_size page_num text_spans [])))"

definition find_headings_on_page :: "runtime \<Rightarrow> page \<Rightarrow> int \<Rightarrow> item list" where
  "find_headings_on_page U page page_num = fst (find_headings_run U page page_num)"

text \<open>
  The loop of \<open>_extract_from_content\<close> over the page numbers, from zero; the headings
  carry the page number from one. Loading a page is inside the \<open>try\<close> of
  \<open>_extract_from_content\<close> only, whose handler returns the empty list.
\<close>

fun content_loop ::
  "runtime \<Rightarrow> (error + page) list \<Rightarrow> nat \<Rightarrow> item list \<Rightarrow> error + item list" where
  "content_loop U [] page_num outline = Inr outline"
| "content_loop U (loaded # pages) page_num outline =
     (case loaded of
        Inl e \<Rightarrow> Inl e
      | Inr page \<Rightarrow>
          content_loop U pages (Suc page_num)
            (outline @ find_headings_on_page U page (int page_num + 1)))"

definition extract_from_content_try :: "runtime \<Rightarrow> document \<Rightarrow> error + item list" where
  "extract_from_content_try U doc =
     (case content_loop U (doc_pages doc) 0 [] of
        Inl e \<Rightarrow> Inl e
      | Inr outline \<Rightarrow> Inr (refine_outline U outline))"

definition extract_from_content :: "runtime \<Rightarrow> document \<Rightarrow> item list" where
  "extract_from_content U doc =
     (case extract_from_content_try U doc of Inl e \<Rightarrow> [] | Inr outline \<Rightarrow> outline)"

definition extract_outline :: "runtime \<Rightarrow> document \<Rightarrow> item list" where
  "extract_outline U doc =
     (let outline = extract_from_bookmarks doc
      in if outline \<noteq> [] then outline
         else let outline = extract_from_content U doc
         in if outline \<noteq> [] then outline else [])"

section \<open>title_extractor\<close>

text \<open>The dictionaries of \<open>_get_text_blocks_with_formatting\<close>, one for each span.\<close>

record text_block =
  tb_text :: ustr
  tb_size :: rat
  tb_flags :: "int option"
  tb_bbox :: "rat list"

fun text_blocks_loop :: "span list \<Rightarrow> text_block list" where
  "text_blocks_loop [] = []"
| "text_blocks_loop (sp # spans) =
     (let text = strip (sp_text sp)
      in if text \<noteq> [] then
           \<lparr>tb_text = text, tb_size = sp_size sp, tb_flags = sp_flags sp,
            tb_bbox = (case sp_bbox sp of None \<Rightarrow> [] | Some b \<Rightarrow> b)\<rparr>
           # text_blocks_loop spans
         else text_blocks_loop spans)"

text \<open>A page whose \<open>get_text\<close> raises yields no blocks: the handler returns the empty list.\<close>

definition get_text_blocks_with_formatting :: "page \<Rightarrow> text_block list" where
  "get_text_blocks_with_formatting page =
     (case page of
        Unreadable \<Rightarrow> []
      | Page blocks \<Rightarrow> text_blocks_loop (concat (map block_spans blocks)))"

text \<open>
  \<open>_calculate_title_score\<close>. The score starts at \<open>0.0\<close> and each \<open>+=\<close> and \<open>-=\<close> is a float
  operation, in the order of the source.
\<close>

definition calculate_title_score :: "runtime \<Rightarrow> text_block \<Rightarrow> error + rat" where
  "calculate_title_score U block =
     (let text = tb_text block;
          font_size = tb_size block
      in case index1 (tb_bbox block) of
           Inl e \<Rightarrow> Inl e
         | Inr y_pos \<Rightarrow>
             (let flags = tb_flags block;
                  score = py_add U 0 (py_mul U font_size 2);
                  score = py_add U score (py_div U (max 0 (py_sub U 800 y_pos)) 10)
              in case bold_flag flags of
                   Inl e \<Rightarrow> Inl e
                 | Inr is_bold \<Rightarrow>
                     (let score = (if is_bold then py_add U score 20 else score);
                          score = (if 10 \<le> length text \<and> length text \<le> 100
                                   then py_add U score 30 else score);
                          score = (if py_istitle U text then py_add U score 15 else score);
                          score = (if py_isupper U text \<and> length text > 20
                                   then py_sub U score 10 else score)
                      in Inr score)))"

definition ignore_words :: "ustr list" where
  "ignore_words =
     [u ''page'', u ''chapter'', u ''section'', u ''table'', u ''figure'', u ''contents'',
      u ''index'', u ''appendix'', u ''bibliography'', u ''abstract'', u ''introduction'',
      u ''conclusion'']"

record candidate =
  cd_text :: ustr
  cd_font_size :: rat
  cd_y_position :: rat
  cd_score :: rat

definition is_candidate :: "runtime \<Rightarrow> ustr \<Rightarrow> bool" where
  "is_candidate U text \<longleftrightarrow>
     \<not> (length text < 5 \<or> length text > 200) \<and>
     \<not> list_ex (\<lambda>word. contains (py_lower U word) (py_lower U text)) ignore_words \<and>
     is_likely_title U text"

fun candidates_loop :: "runtime \<Rightarrow> text_block list \<Rightarrow> error + candidate list" where
  "candidates_loop U [] = Inr []"
| "candidates_loop U (block # text_blocks) =
     (let text = strip (tb_text block)
      in if length text < 5 \<or> length text > 200 then candidates_loop U text_blocks
         else if list_ex (\<lambda>word. contains (py_lower U word) (py_lower U text)) ignore_words
           then candidates_loop U text_blocks
         else if is_likely_title U text then
           (case index1 (tb_bbox block) of
              Inl e \<Rightarrow> Inl e
            | Inr y \<Rightarrow>
                (case calculate_title_score U block of
                   Inl e \<Rightarrow> Inl e
                 | Inr score \<Rightarrow>
                     (case candidates_loop U text_blocks of
                        Inl e \<Rightarrow> Inl e
                      | Inr candidates \<Rightarrow>
                          Inr (\<lparr>cd_text = text, cd_font_size = tb_size block,
                                cd_y_position = y, cd_score = score\<rparr> # candidates))))
         else candidates_loop U text_blocks)"

text \<open>
  \<open>list.sort(key=..., reverse=True)\<close> keeps the order of equal keys: CPython reverses
  the list, sorts it stably and reverses it again.
\<close>

definition sort_reverse :: "('a \<Rightarrow> rat) \<Rightarrow> 'a list \<Rightarrow> 'a list" where
  "sort_reverse key xs = rev (sort_key key (rev xs))"

definition extract_from_metadata_try :: "document \<Rightarrow> error + ustr option" where
  "extract_from_metadata_try doc =
     (case doc_metadata_title doc of
        NoneTitle \<Rightarrow> Inl AttributeError
      | NoTitle \<Rightarrow> Inr None
      | Title t \<Rightarrow>
          (let title = strip t
           in if title \<noteq> [] \<and> length title > 3 then Inr (Some (clean_text title))
              else Inr None))"

definition extract_from_metadata :: "document \<Rightarrow> ustr option" where
  "extract_from_metadata doc =
     (case extract_from_metadata_try doc of Inl e \<Rightarrow> None | Inr r \<Rightarrow> r)"

definition extract_from_outline_try :: "runtime \<Rightarrow> document \<Rightarrow> error + ustr option" where
  "extract_from_outline_try U doc =
     (case doc_toc doc of
        Inl e \<Rightarrow> Inl e
      | Inr outline \<Rightarrow>
          (case outline of
             [] \<Rightarrow> Inr None
           | (level, title, page) # rest \<Rightarrow>
               if level = 1 \<and> is_likely_title U title then Inr (Some (clean_text title))
               else Inr None))"

definition extract_from_outline :: "runtime \<Rightarrow> document \<Rightarrow> ustr option" where
  "extract_from_outline U doc =
     (case extract_from_outline_try U doc of Inl e \<Rightarrow> None | Inr r \<Rightarrow> r)"

definition extract_from_first_page_try :: "runtime \<Rightarrow> document \<Rightarrow> error + ustr option" where
  "extract_from_first_page_try U doc =
     (if page_count doc = 0 then Inr None
      else
        (case doc_pages doc ! 0 of
           Inl e \<Rightarrow> Inl e
         | Inr page \<Rightarrow>
             (let text_blocks = get_text_blocks_with_formatting page
              in case candidates_loop U text_blocks of
                   Inl e \<Rightarrow> Inl e
                 | Inr candidates0 \<Rightarrow>
                     (let candidates = sort_reverse cd_score candidates0
                      in if candidates \<noteq> []
                         then Inr (Some (clean_text (cd_text (candidates ! 0))))
                         else Inr None))))"

definition extract_from_first_page :: "runtime \<Rightarrow> document \<Rightarrow> ustr option" where
  "extract_from_first_page U doc =
     (case extract_from_first_page_try U doc of Inl e \<Rightarrow> None | Inr r \<Rightarrow> r)"

text \<open>
  The scan of \<open>_extract_by_font_size\<close>; its state is \<open>(max_font_size, title_candidates)\<close>
  and runs on from one page to the next.
\<close>

fun font_size_loop :: "runtime \<Rightarrow> text_block list \<Rightarrow> rat \<times> ustr list \<Rightarrow> rat \<times> ustr list" where
  "font_size_loop U [] state = state"
| "font_size_loop U (block # text_blocks) (max_font_size, title_candidates) =
     (let font_size = tb_size block;
          text = strip (tb_text block)
      in if font_size > max_font_size \<and> length text > 5 \<and> is_likely_title U text then
           font_size_loop U text_blocks (font_size, [text])
         else if font_size = max_font_size \<and> length text > 5 \<and> is_likely_title U text then
           font_size_loop U text_blocks (max_font_size, title_candidates @ [text])
         else font_size_loop U text_blocks (max_font_size, title_candidates))"

text \<open>The loop over the first three pages, each loaded inside the \<open>try\<close>.\<close>

fun font_size_pages ::
  "runtime \<Rightarrow> (error + page) list \<Rightarrow> rat \<times> ustr list \<Rightarrow> error + rat \<times> ustr list" where
  "font_size_pages U [] state = Inr state"
| "font_size_pages U (loaded # pages) state =
     (case loaded of
        Inl e \<Rightarrow> Inl e
      | Inr page \<Rightarrow>
          font_size_pages U pages
            (font_size_loop U (get_text_blocks_with_formatting page) state))"

definition extract_by_font_size_try :: "runtime \<Rightarrow> document \<Rightarrow> error + ustr option" where
  "extract_by_font_size_try U doc =
     (case font_size_pages U (take (nat (min 3 (page_count doc))) (doc_pages doc)) (0, []) of
        Inl e \<Rightarrow> Inl e
      | Inr (max_font_size, title_candidates) \<Rightarrow>
          if title_candidates \<noteq> [] then Inr (Some (clean_text (title_candidates ! 0)))
          else Inr None)"

definition extract_by_font_size :: "runtime \<Rightarrow> document \<Rightarrow> ustr option" where
  "extract_by_font_size U doc =
     (case extract_by_font_size_try U doc of Inl e \<Rightarrow> None | Inr r \<Rightarrow> r)"

text \<open>\<open>if title:\<close> on an optional string: neither \<open>None\<close> nor empty.\<close>

definition truthy :: "ustr option \<Rightarrow> bool" where
  "truthy title \<longleftrightarrow> (case title of None \<Rightarrow> False | Some t \<Rightarrow> t \<noteq> [])"

definition extract_title :: "runtime \<Rightarrow> document \<Rightarrow> ustr" where
  "extract_title U doc =
     (let title = extract_from_metadata doc
      in if truthy title then the title
         else let title = extract_from_outline U doc
         in if truthy title then the title
         else let title = extract_from_first_page U doc
         in if truthy title then the title
         else let title = extract_by_font_size U doc
         in if truthy title then the title
         else [])"

section \<open>pdf_processor.process_pdf\<close>

record result =
  res_title :: ustr
  res_outline :: "item list"

text \<open>
  On an open document: a document without pages raises \<open>ValueError\<close>, which the handler
  of \<open>process_pdf\<close> turns into the empty result.
\<close>

definition process_pdf :: "runtime \<Rightarrow> document \<Rightarrow> result" where
  "process_pdf U doc =
     (if page_count doc = 0 then \<lparr>res_title = [], res_outline = []\<rparr>
      else \<lparr>res_title = extract_title U doc, res_outline = extract_outline U doc\<rparr>)"

section \<open>json_validator\<close>

text \<open>
  The values that the validator may be handed. A dictionary has string keys and is an
  association list, read with \<open>map_of\<close>. \<open>bool\<close> is a subclass of \<open>int\<close> in Python:
  \<open>isinstance(True, int)\<close> holds and \<open>True\<close> compares as \<open>1\<close>.
\<close>

datatype pyval =
    PNone
  | PBool bool
  | PInt int
  | PFloat rat
  | PStr ustr
  | PList "pyval list"
  | PDict "(ustr \<times> pyval) list"

type_synonym pydict = "(ustr \<times> pyval) list"

definition dict_get :: "pydict \<Rightarrow> ustr \<Rightarrow> pyval \<Rightarrow> pyval" where
  "dict_get d k dflt = (case map_of d k of None \<Rightarrow> dflt | Some v \<Rightarrow> v)"

definition dict_has :: "pydict \<Rightarrow> ustr \<Rightarrow> bool" where
  "dict_has d k \<longleftrightarrow> map_of d k \<noteq> None"

text \<open>\<open>isinstance(v, int)\<close> with the value of \<open>v\<close> as an integer.\<close>

fun as_int :: "pyval \<Rightarrow> int option" where
  "as_int (PInt n) = Some n"
| "as_int (PBool b) = Some (if b then 1 else 0)"
| "as_int v = None"

definition valid_levels :: "ustr set" where
  "valid_levels = {u ''h1'', u ''h2'', u ''h3'', u ''h4'', u ''h5'', u ''h6''}"

definition validate_title :: "pyval \<Rightarrow> bool" where
  "validate_title title =
     (case title of
        PStr t \<Rightarrow> if length t > 500 then False else True
      | _ \<Rightarrow> False)"

definition validate_outline_item :: "pyval \<Rightarrow> bool" where
  "validate_outline_item item =
     (case item of
        PDict d \<Rightarrow>
          if \<not> list_all (dict_has d) [u ''level'', u ''text'', u ''page''] then False
          else
            (case dict_get d (u ''level'') PNone of
               PStr level \<Rightarrow>
                 if level \<notin> valid_levels then False
                 else
                   (case dict_get d (u ''text'') PNone of
                      PStr text \<Rightarrow>
                        if length (strip text) = 0 then False
                        else if length text > 1000 then False
                        else
                          (case as_int (dict_get d (u ''page'') PNone) of
                             None \<Rightarrow> False
                           | Some page \<Rightarrow> if page < 1 then False else True)
                    | _ \<Rightarrow> False)
             | _ \<Rightarrow> False)
      | _ \<Rightarrow> False)"

definition validate_outline :: "pyval \<Rightarrow> bool" where
  "validate_outline outline =
     (case outline of
        PList items \<Rightarrow> if length items = 0 then True else list_all validate_outline_item items
      | _ \<Rightarrow> False)"

definition validate :: "pyval \<Rightarrow> bool" where
  "validate data =
     (case data of
        PDict d \<Rightarrow>
          if \<not> dict_has d (u ''title'') \<or> \<not> dict_has d (u ''outline'') then False
          else if \<not> validate_title (dict_get d (u ''title'') PNone) then False
          else if \<not> validate_outline (dict_get d (u ''outline'') PNone) then False
          else True
      | _ \<Rightarrow> False)"

text \<open>
  \<open>sanitize_data\<close>. The builtin \<open>str\<close> that it applies to a value that is not a string is
  the parameter \<open>str_of\<close>.
\<close>

definition to_str :: "(pyval \<Rightarrow> ustr) \<Rightarrow> pyval \<Rightarrow> ustr" where
  "to_str str_of v = (case v of PStr s \<Rightarrow> s | _ \<Rightarrow> str_of v)"

fun sanitize_items :: "(pyval \<Rightarrow> ustr) \<Rightarrow> pyval list \<Rightarrow> pyval list" where
  "sanitize_items str_of [] = []"
| "sanitize_items str_of (item # outline) =
     (case item of
        PDict d \<Rightarrow>
          (let level = dict_get d (u ''level'') (PStr (u ''h1''));
               level = (case level of
                          PStr l \<Rightarrow> if l \<notin> valid_levels then PStr (u ''h1'') else level
                        | _ \<Rightarrow> PStr (u ''h1''));
               text = to_str str_of (dict_get d (u ''text'') (PStr []));
               text = take 1000 (strip text)
           in if text = [] then sanitize_items str_of outline
              else
                (let page = dict_get d (u ''page'') (PInt 1);
                     page = (case as_int page of
                               None \<Rightarrow> PInt 1
                             | Some n \<Rightarrow> if n < 1 then PInt 1 else page)
                 in PDict [(u ''level'', level), (u ''text'', PStr text), (u ''page'', page)]
                    # sanitize_items str_of outline))
      | _ \<Rightarrow> sanitize_items str_of outline)"

definition sanitize_data :: "(pyval \<Rightarrow> ustr) \<Rightarrow> pydict \<Rightarrow> pyval" where
  "sanitize_data str_of data =
     (let title = to_str str_of (dict_get data (u ''title'') (PStr []));
          title = take 500 (strip title);
          outline = (case dict_get data (u ''outline'') (PList []) of
                       PList items \<Rightarrow> items
                     | _ \<Rightarrow> [])
      in PDict [(u ''title'', PStr title),
                (u ''outline'', PList (sanitize_items str_of outline))])"

section \<open>Notions used in the statements and proofs\<close>

text \<open>The key by which \<open>_refine_outline\<close> recognises a duplicate.\<close>

definition item_key :: "runtime \<Rightarrow> item \<Rightarrow> ustr \<times> int" where
  "item_key U it = (py_lower U (it_text it), it_page it)"

text \<open>
  What the repair loop establishes when it starts from \<open>current_level = c\<close>: every level
  is one of \<open>h1\<close> to \<open>h6\<close>, the first is at most \<open>c + 1\<close>, and each next one is at most
  one deeper than the one before.
\<close>

fun repaired :: "int \<Rightarrow> item list \<Rightarrow> bool" where
  "repaired c [] = True"
| "repaired c (y # ys) =
     (1 \<le> level_map (it_level y) \<and> level_map (it_level y) \<le> 6 \<and>
      level_map (it_level y) \<le> c + 1 \<and>
      it_level y = reverse_map (level_map (it_level y)) \<and>
      repaired (level_map (it_level y)) ys)"

text \<open>An outline with a duplicate, a page out of order and a jump from \<open>h1\<close> to \<open>h4\<close>.\<close>

definition raw_outline :: "item list" where
  "raw_outline =
     [\<lparr>it_level = u ''h3'', it_text = u ''Scope'', it_page = 2\<rparr>,
      \<lparr>it_level = u ''h1'', it_text = u ''Intro'', it_page = 1\<rparr>,
      \<lparr>it_level = u ''h4'', it_text = u ''Details'', it_page = 1\<rparr>,
      \<lparr>it_level = u ''h2'', it_text = u ''SCOPE'', it_page = 2\<rparr>]"

text \<open>
  The conditions of \<open>detect_heading_level\<close>: none of its nine tests succeeds, and none
  of those that come before the test for \<open>section\<close>.
\<close>

definition no_rule_matches :: "runtime \<Rightarrow> ustr \<Rightarrow> bool" where
  "no_rule_matches U text \<longleftrightarrow>
     \<not> (re_match (pat_num3 U) text \<or> re_match (pat_num2 U) text \<or> re_match (pat_num1 U) text \<or>
        re_match pat_roman text \<or> re_match pat_letter text \<or>
        contains (u ''chapter'') (py_lower U text) \<or> contains (u ''part'') (py_lower U text) \<or>
        contains (u ''section'') (py_lower U text) \<or>
        contains (u ''subsection'') (py_lower U text))"

definition no_earlier_rule :: "runtime \<Rightarrow> ustr \<Rightarrow> bool" where
  "no_earlier_rule U text \<longleftrightarrow>
     \<not> (re_match (pat_num3 U) text \<or> re_match (pat_num2 U) text \<or> re_match (pat_num1 U) text \<or>
        re_match pat_roman text \<or> re_match pat_letter text \<or>
        contains (u ''chapter'') (py_lower U text) \<or> contains (u ''part'') (py_lower U text))"

text \<open>A dictionary as the extraction may hand it to \<open>sanitize_data\<close>, with faulty entries.\<close>

definition raw_data :: pydict where
  "raw_data =
     [(u ''title'', PStr (u ''  Annual Report  '')),
      (u ''outline'', PList
         [PDict [(u ''level'', PStr (u ''h9'')), (u ''text'', PStr (u '' Scope '')),
                 (u ''page'', PInt 0)],
          PStr (u ''stray''),
          PDict [(u ''level'', PStr (u ''h2'')), (u ''text'', PStr (u ''   ''))]])]"

text \<open>The shape of an item that \<open>sanitize_data\<close> keeps.\<close>

definition sanitized_item :: "pyval \<Rightarrow> bool" where
  "sanitized_item item \<longleftrightarrow>
     (\<exists>level text page n.
        item = PDict [(u ''level'', PStr level), (u ''text'', PStr text), (u ''page'', page)] \<and>
        level \<in> valid_levels \<and> strip text \<noteq> [] \<and> length text \<le> 1000 \<and>
        as_int page = Some n \<and> 1 \<le> n)"

text \<open>A document of two empty pages with the three bookmarks of the scenario.\<close>

definition bookmark_doc :: document where
  "bookmark_doc =
     \<lparr>doc_metadata_title = NoTitle,
      doc_toc = Inr [(1, u ''Intro'', 1), (3, u ''Deep Dive'', 2), (2, u ''Background'', 2)],
      doc_pages = [Inr (Page []), Inr (Page [])]\<rparr>"

text \<open>Documents of one empty page whose metadata carry a title.\<close>

definition titled_doc :: "ustr \<Rightarrow> document" where
  "titled_doc t =
     \<lparr>doc_metadata_title = Title t, doc_toc = Inr [], doc_pages = [Inr (Page [])]\<rparr>"

text \<open>The number of dots at the start of a string.\<close>

definition leading_dots :: "ustr \<Rightarrow> nat" where
  "leading_dots s = length (takeWhile (\<lambda>c. c = dot) s)"

text \<open>The first of the strategies' results that is a non-empty string, else the empty string.\<close>

fun first_title :: "ustr option list \<Rightarrow> ustr" where
  "first_title [] = []"
| "first_title (t # ts) = (if truthy t then the t else first_title ts)"

text \<open>
  Reading the spans of a page: \<open>get_text\<close> and the loops that collect the dictionaries,
  the first part of the \<open>try\<close> of \<open>_find_headings_on_page\<close>.
\<close>

definition read_text_spans :: "page \<Rightarrow> error + text_span list" where
  "read_text_spans page =
     (case page of
        Unreadable \<Rightarrow> Inl RuntimeError
      | Page blocks \<Rightarrow> collect_text_spans (concat (map block_spans blocks)))"

text \<open>
  A span that \<open>_is_likely_heading\<close> can analyse: its flags are read only when the text has
  between 3 and 200 characters and the size is not above 1.2 times the average, and
  then they must be an integer.
\<close>

definition analysable :: "runtime \<Rightarrow> rat \<Rightarrow> text_span \<Rightarrow> bool" where
  "analysable U avg_font_size sp \<longleftrightarrow>
     length (ts_text sp) < 3 \<or> length (ts_text sp) > 200 \<or>
     ts_size sp > py_mul U avg_font_size float_1_2 \<or> (\<exists>f. ts_flags sp = Some f)"

definition likely_heading :: "runtime \<Rightarrow> rat \<Rightarrow> text_span \<Rightarrow> bool" where
  "likely_heading U avg_font_size sp \<longleftrightarrow>
     is_likely_heading U (ts_text sp) (ts_size sp) (ts_flags sp) avg_font_size = Inr True"

text \<open>The item that \<open>_find_headings_on_page\<close> appends for a span.\<close>

definition heading_item :: "runtime \<Rightarrow> rat \<Rightarrow> int \<Rightarrow> text_span \<Rightarrow> item" where
  "heading_item U avg_font_size page_num sp =
     \<lparr>it_level = detect_heading_level U (ts_text sp) (ts_size sp) (ts_flags sp) avg_font_size,
      it_text = clean_text (ts_text sp), it_page = page_num\<rparr>"

text \<open>
  The headings among the sorted spans of a page that come before the first span that
  cannot be analysed; all headings of the page when there is no such span.
\<close>

definition headings_before_fault :: "runtime \<Rightarrow> int \<Rightarrow> text_span list \<Rightarrow> item list" where
  "headings_before_fault U page_num text_spans =
     (let avg_font_size = calculate_average_font_size U text_spans
      in map (heading_item U avg_font_size page_num)
           (filter (likely_heading U avg_font_size)
              (takeWhile (analysable U avg_font_size) text_spans)))"

text \<open>Whether \<open>doc[page_num]\<close> gives a page, and the headings of the pages in their order.\<close>

definition loads :: "error + page \<Rightarrow> bool" where
  "loads loaded = (case loaded of Inl e \<Rightarrow> False | Inr page \<Rightarrow> True)"

definition headings_of_pages :: "runtime \<Rightarrow> (error + page) list \<Rightarrow> item list" where
  "headings_of_pages U pages =
     concat (map (\<lambda>(page_num, loaded). find_headings_on_page U (projr loaded) (int page_num + 1))
                 (enumerate 0 pages))"

text \<open>
  A document without a metadata title: the entry is missing, \<open>None\<close>, or has at most three
  characters between its surrounding white space, as the empty string has. A document
  without a native outline: \<open>get_toc\<close> raises or returns the empty list. A page without
  a usable span: it cannot be loaded or read, or the text of every span is white space.
\<close>

definition no_metadata_title :: "document \<Rightarrow> bool" where
  "no_metadata_title doc =
     (case doc_metadata_title doc of
        NoTitle \<Rightarrow> True
      | NoneTitle \<Rightarrow> True
      | Title t \<Rightarrow> length (strip t) \<le> 3)"

definition no_native_outline :: "document \<Rightarrow> bool" where
  "no_native_outline doc = (case doc_toc doc of Inl e \<Rightarrow> True | Inr toc \<Rightarrow> toc = [])"

definition no_usable_spans :: "error + page \<Rightarrow> bool" where
  "no_usable_spans loaded =
     (case loaded of
        Inl e \<Rightarrow> True
      | Inr Unreadable \<Rightarrow> True
      | Inr (Page blocks) \<Rightarrow>
          list_all (\<lambda>sp. strip (sp_text sp) = []) (concat (map block_spans blocks)))"

text \<open>
  A page with one numbered heading. A page whose only span has a bounding box of one
  coordinate, so that collecting its spans fails. A page with a numbered heading above
  a span whose flags are not an integer, so that the analysis fails at the second span.
\<close>

definition heading_page :: "ustr \<Rightarrow> page" where
  "heading_page t =
     Page [TextBlock [[\<lparr>sp_text = t, sp_size = 12, sp_flags = Some 0, sp_bbox = None\<rparr>]]]"

definition faulty_page :: page where
  "faulty_page =
     Page [ImageBlock,
           TextBlock [[\<lparr>sp_text = u ''Quarterly Results'', sp_size = 18, sp_flags = Some 0,
                        sp_bbox = Some [72]\<rparr>]]]"

definition partial_page :: page where
  "partial_page =
     Page [TextBlock
       [[\<lparr>sp_text = u ''1. Scope'', sp_size = 12, sp_flags = Some 0,
          sp_bbox = Some [72, 100, 200, 112]\<rparr>],
        [\<lparr>sp_text = u ''Body'', sp_size = 12, sp_flags = None,
          sp_bbox = Some [72, 120, 200, 132]\<rparr>]]]"

text \<open>
  A document in which the metadata title is \<open>None\<close>, \<open>get_toc\<close> raises and the first page
  is the one whose spans cannot be collected; a document of three pages, the second
  being that page; a document whose second page cannot be loaded; a document of one
  page without spans whose metadata title is the empty string.
\<close>

definition faulty_doc :: document where
  "faulty_doc =
     \<lparr>doc_metadata_title = NoneTitle, doc_toc = Inl RuntimeError,
      doc_pages = [Inr faulty_page]\<rparr>"

definition three_page_doc :: document where
  "three_page_doc =
     \<lparr>doc_metadata_title = NoTitle, doc_toc = Inr [],
      doc_pages = [Inr (heading_page (u ''1. Scope'')), Inr faulty_page,
                   Inr (heading_page (u ''2. Method''))]\<rparr>"

definition load_fault_doc :: document where
  "load_fault_doc =
     \<lparr>doc_metadata_title = NoTitle, doc_toc = Inr [],
      doc_pages = [Inr (heading_page (u ''1. Scope'')), Inl RuntimeError]\<rparr>"

definition empty_doc :: document where
  "empty_doc = \<lparr>doc_metadata_title = Title [], doc_toc = Inr [], doc_pages = [Inr (Page [])]\<rparr>"

text \<open>
  The score of a block whose bounding box and flags can be read, and the dictionary that
  \<open>_extract_from_first_page\<close> appends for it.
\<close>

definition score_value :: "runtime \<Rightarrow> text_block \<Rightarrow> rat" where
  "score_value U block = (case calculate_title_score U block of Inl e \<Rightarrow> 0 | Inr score \<Rightarrow> score)"

definition to_candidate :: "runtime \<Rightarrow> text_block \<Rightarrow> candidate" where
  "to_candidate U block =
     \<lparr>cd_text = tb_text block, cd_font_size = tb_size block,
      cd_y_position = tb_bbox block ! 1, cd_score = score_value U block\<rparr>"

text \<open>
  The score as the specification words it, with the bonus of 30 decided by the length of
  the cleaned text: the terms that apply are added from the left in float arithmetic.
\<close>

definition spec_title_score :: "runtime \<Rightarrow> text_block \<Rightarrow> rat" where
  "spec_title_score U block =
     (let score = foldl (py_add U) 0
            ([py_mul U (tb_size block) 2,
              py_div U (max 0 (py_sub U 800 (tb_bbox block ! 1))) 10] @
             (if bold (the (tb_flags block)) then [20] else []) @
             (if 10 \<le> length (clean_text (tb_text block)) \<and>
                 length (clean_text (tb_text block)) \<le> 100 then [30] else []) @
             (if py_istitle U (tb_text block) then [15] else []))
      in if py_isupper U (tb_text block) \<and> length (tb_text block) > 20
         then py_sub U score 10 else score)"

text \<open>A first page with two spans, the first with double spaces between its words.\<close>

definition spaced_block :: text_block where
  "spaced_block =
     \<lparr>tb_text = u ''Ab  Cd  Ef'', tb_size = 10, tb_flags = Some 0, tb_bbox = [0, 0, 90, 10]\<rparr>"

definition plain_block :: text_block where
  "plain_block =
     \<lparr>tb_text = u ''Abcdefgh'', tb_size = 12, tb_flags = Some 0, tb_bbox = [0, 0, 90, 12]\<rparr>"

definition spaced_doc :: document where
  "spaced_doc =
     \<lparr>doc_metadata_title = NoTitle, doc_toc = Inr [],
      doc_pages =
        [Inr (Page [TextBlock
           [[\<lparr>sp_text = u ''Ab  Cd  Ef'', sp_size = 10, sp_flags = Some 0,
              sp_bbox = Some [0, 0, 90, 10]\<rparr>],
            [\<lparr>sp_text = u ''Abcdefgh'', sp_size = 12, sp_flags = Some 0,
              sp_bbox = Some [0, 0, 90, 12]\<rparr>]]])]\<rparr>"

text \<open>
  A first page with two spans: the first of size \<open>8.0\<close> at \<open>y0 = 1.5\<close>, the second of the
  double \<open>15.6\<close> at \<open>y0 = 153.5\<close>. In exact arithmetic the first would score \<open>140.85\<close> and
  the second a little less; the float scores are the double \<open>140.85\<close> for the first and
  the next double above it, \<open>140.85000000000002\<close>, for the second.
\<close>

definition small_block :: text_block where
  "small_block =
     \<lparr>tb_text = u ''Annual Report'', tb_size = 8, tb_flags = Some 0,
      tb_bbox = [72, 3 / 2, 300, 10]\<rparr>"

definition large_block :: text_block where
  "large_block =
     \<lparr>tb_text = u ''Budget Summary'', tb_size = 8782019273372467 / 562949953421312,
      tb_flags = Some 0, tb_bbox = [72, 307 / 2, 300, 170]\<rparr>"

definition rounded_doc :: document where
  "rounded_doc =
     \<lparr>doc_metadata_title = NoTitle, doc_toc = Inr [],
      doc_pages =
        [Inr (Page [TextBlock
           [[\<lparr>sp_text = u ''Annual Report'', sp_size = 8, sp_flags = Some 0,
              sp_bbox = Some [72, 3 / 2, 300, 10]\<rparr>],
            [\<lparr>sp_text = u ''Budget Summary'',
              sp_size = 8782019273372467 / 562949953421312, sp_flags = Some 0,
              sp_bbox = Some [72, 307 / 2, 300, 170]\<rparr>]]])]\<rparr>"

text \<open>
  What the passes of \<open>clean_text\<close> do, said without regular expressions. The words of a
  string are its maximal runs of characters that are not white space, as \<open>str.split()\<close>
  gives them; \<open>join_words\<close> puts one space between them. \<open>rstrip\<close> takes the white space
  from the end of a string.
\<close>

definition rstrip :: "ustr \<Rightarrow> ustr" where
  "rstrip s = rev (dropWhile isspace (rev s))"

function ws_words :: "ustr \<Rightarrow> ustr list" where
  "ws_words s =
     (case dropWhile isspace s of
        [] \<Rightarrow> []
      | c # t \<Rightarrow>
          (c # takeWhile (\<lambda>x. \<not> isspace x) t) # ws_words (dropWhile (\<lambda>x. \<not> isspace x) t))"
  by pat_completeness auto
termination
proof (relation "measure length")
  show "wf (measure length)" by simp
next
  fix s :: ustr and c t
  assume "dropWhile isspace s = c # t"
  then have "Suc (length t) \<le> length s"
    using length_dropWhile_le [of isspace s] by simp
  moreover have "length (dropWhile (\<lambda>x. \<not> isspace x) t) \<le> length t"
    by (rule length_dropWhile_le)
  ultimately show "(dropWhile (\<lambda>x. \<not> isspace x) t, s) \<in> measure length" by simp
qed

declare ws_words.simps [simp del]

fun join_words :: "ustr list \<Rightarrow> ustr" where
  "join_words [] = []"
| "join_words [w] = w"
| "join_words (w # v # ws) = w @ 32 # join_words (v # ws)"

text \<open>
  A string cut into its maximal runs of dots and its maximal runs of other characters;
  \<open>collapse_dots\<close> puts three dots for every run of three or more dots.
\<close>

function dot_runs :: "ustr \<Rightarrow> ustr list" where
  "dot_runs [] = []"
| "dot_runs (c # s) =
     (c # takeWhile (\<lambda>x. (x = dot) = (c = dot)) s)
     # dot_runs (dropWhile (\<lambda>x. (x = dot) = (c = dot)) s)"
  by pat_completeness auto
termination
  by (relation "measure length") (auto simp add: length_dropWhile_le less_Suc_eq_le)

definition collapse_dots :: "ustr \<Rightarrow> ustr" where
  "collapse_dots s =
     concat (map (\<lambda>run. if hd run = dot \<and> 3 \<le> length run then u ''...'' else run)
                 (dot_runs s))"

text \<open>
  No two dots of the string have white space, and nothing else, between them: after a
  dot, white space is not followed by a dot.
\<close>

fun spaced_pair_free :: "ustr \<Rightarrow> bool" where
  "spaced_pair_free [] = True"
| "spaced_pair_free (c # s) =
     (\<not> (c = dot \<and> dropWhile isspace s \<noteq> s \<and> starts_with [dot] (dropWhile isspace s)) \<and>
      spaced_pair_free s)"

text \<open>The string without the white space that stands before three dots.\<close>

fun close_up :: "ustr \<Rightarrow> ustr" where
  "close_up [] = []"
| "close_up (c # s) =
     (if isspace c \<and> starts_with (u ''...'') (dropWhile isspace s) then close_up s
      else c # close_up s)"

text \<open>
  The number of dots at the start of a string when white space is ignored, and the
  strings in which this number is at most \<open>n\<close> wherever one starts to count: they have
  no run of more than \<open>n\<close> dots, also when the white space between dots is ignored.
\<close>

fun spaced_run :: "ustr \<Rightarrow> nat" where
  "spaced_run [] = 0"
| "spaced_run (c # s) =
     (if c = dot then Suc (spaced_run s) else if isspace c then spaced_run s else 0)"

fun dot_runs_le :: "nat \<Rightarrow> ustr \<Rightarrow> bool" where
  "dot_runs_le n [] = True"
| "dot_runs_le n (c # s) = (spaced_run (c # s) \<le> n \<and> dot_runs_le n s)"

section \<open>Evaluating floats\<close>

lemma bit_length_numeral:
  "bit_length 0 = 0"
  "bit_length (Suc 0) = Suc 0"
  "bit_length (numeral k) = Suc (bit_length (numeral k div 2))"
  by (simp_all add: bit_length.simps [of 0] bit_length.simps [of "Suc 0"]
      bit_length.simps [of "numeral k"])

lemma floor_fraction:
  "\<lfloor>numeral a / numeral b :: rat\<rfloor> = numeral a div numeral b"
  "\<lfloor>- (numeral a / numeral b) :: rat\<rfloor> = - numeral a div numeral b"
  "\<lfloor>1 / numeral b :: rat\<rfloor> = 1 div numeral b"
  "\<lceil>numeral a / numeral b :: rat\<rceil> = - (- numeral a div numeral b)"
  "\<lceil>1 / numeral b :: rat\<rceil> = - (- 1 div numeral b)"
proof -
  show "\<lfloor>numeral a / numeral b :: rat\<rfloor> = numeral a div numeral b"
    using floor_divide_of_int_eq [of "numeral a" "numeral b", where ?'a = rat] by simp
  show "\<lfloor>- (numeral a / numeral b) :: rat\<rfloor> = - numeral a div numeral b"
    using floor_divide_of_int_eq [of "- numeral a" "numeral b", where ?'a = rat] by simp
  show "\<lfloor>1 / numeral b :: rat\<rfloor> = 1 div numeral b"
    using floor_divide_of_int_eq [of 1 "numeral b", where ?'a = rat] by simp
  show "\<lceil>numeral a / numeral b :: rat\<rceil> = - (- numeral a div numeral b)"
    using floor_divide_of_int_eq [of "- numeral a" "numeral b", where ?'a = rat]
    by (simp add: ceiling_def)
  show "\<lceil>1 / numeral b :: rat\<rceil> = - (- 1 div numeral b)"
    using floor_divide_of_int_eq [of "- 1" "numeral b", where ?'a = rat]
    by (simp add: ceiling_def)
qed

lemmas ieee_eval = round_double_def round_half_even_def floor_log2_def pow2_def Let_def
  bit_length_numeral floor_fraction

text \<open>The two constants are the doubles that Python reads from the literals.\<close>

lemma float_literals:
  "round_double (9 / 5) = float_1_8" "round_double (6 / 5) = float_1_2"
  "round_double (3 / 2) = 3 / 2"
  by (simp_all add: ieee_eval float_1_8_def float_1_2_def)

text \<open>
  The quotient of the doubles \<open>12.6\<close> and \<open>7.0\<close> rounds up to the double \<open>1.8\<close>, though the
  exact quotient of the two values is below it.
\<close>

lemma rounded_quotient:
  "round_double (7093169413108531 / 562949953421312 / 7) = float_1_8"
  "7093169413108531 / 562949953421312 / 7 < float_1_8"
  "round_double (63 / 5) = 7093169413108531 / 562949953421312"
  by (simp_all add: ieee_eval float_1_8_def)

section \<open>The hierarchy repair\<close>

lemmas string_eval = u_def isspace_def strip_def dot_def printable_def
  is_upper_ascii_def is_lower_ascii_def lower_ascii_def ascii_runtime_def

lemma level_map_range: "1 \<le> level_map l \<and> level_map l \<le> 6"
  by (simp add: level_map_def)

lemma level_map_reverse_map:
  assumes "1 \<le> n" and "n \<le> 6"
  shows "level_map (reverse_map n) = n"
proof -
  from assms have "n = 1 \<or> n = 2 \<or> n = 3 \<or> n = 4 \<or> n = 5 \<or> n = 6" by arith
  then show ?thesis
    by (auto simp add: level_map_def reverse_map_def u_def)
qed

lemma fix_loop_repaired: "0 \<le> c \<Longrightarrow> repaired c (fix_loop c xs)"
proof (induction xs arbitrary: c)
  case Nil
  then show ?case by simp
next
  case (Cons x xs)
  define n where
    "n = (if level_map (it_level x) > c + 1 then c + 1 else level_map (it_level x))"
  have r: "1 \<le> n" "n \<le> 6" "n \<le> c + 1"
    using level_map_range [of "it_level x"] Cons.prems by (auto simp: n_def)
  then have "repaired n (fix_loop n xs)" using Cons.IH [of n] by simp
  with r show ?case
    by (simp add: Let_def n_def [symmetric] level_map_reverse_map)
qed

lemma repaired_fix_loop_id: "repaired c xs \<Longrightarrow> fix_loop c xs = xs"
  by (induction xs arbitrary: c) (simp_all add: Let_def)

lemma repaired_adjacent:
  "repaired c xs \<Longrightarrow> Suc i < length xs \<Longrightarrow>
   level_map (it_level (xs ! Suc i)) \<le> level_map (it_level (xs ! i)) + 1"
proof (induction xs arbitrary: c i)
  case Nil
  then show ?case by simp
next
  case (Cons x xs)
  show ?case
  proof (cases i)
    case 0
    with Cons.prems show ?thesis by (cases xs) auto
  next
    case (Suc j)
    with Cons.prems Cons.IH [of "level_map (it_level x)" j] show ?thesis by simp
  qed
qed

lemma refine_outline_repaired: "repaired 1 (refine_outline U xs)"
  by (simp add: refine_outline_def fix_hierarchy_def fix_loop_repaired)

lemma refine_raw_outline:
  "refine_outline ascii_runtime raw_outline =
     [\<lparr>it_level = u ''h1'', it_text = u ''Intro'', it_page = 1\<rparr>,
      \<lparr>it_level = u ''h2'', it_text = u ''Details'', it_page = 1\<rparr>,
      \<lparr>it_level = u ''h3'', it_text = u ''Scope'', it_page = 2\<rparr>]"
  by (simp add: refine_outline_def fix_hierarchy_def raw_outline_def level_map_def
      reverse_map_def string_eval Let_def)

text \<open>
  C2. In the output of \<open>_refine_outline\<close>, for every raw outline, the level ordinal of
  each item is at most one more than the level ordinal of the item before it.
\<close>

theorem refine_outline_level_monotone:
  "Suc i < length (refine_outline U xs) \<Longrightarrow>
   level_map (it_level (refine_outline U xs ! Suc i))
     \<le> level_map (it_level (refine_outline U xs ! i)) + 1"
  using refine_outline_repaired by (rule repaired_adjacent)

theorem refine_outline_level_monotone_witness:
  "Suc 0 < length (refine_outline ascii_runtime raw_outline) \<and>
   level_map (it_level (refine_outline ascii_runtime raw_outline ! Suc 0))
     \<le> level_map (it_level (refine_outline ascii_runtime raw_outline ! 0)) + 1"
proof -
  have h: "Suc 0 < length (refine_outline ascii_runtime raw_outline)"
    by (simp add: refine_raw_outline)
  from h refine_outline_level_monotone [OF h] show ?thesis by simp
qed

lemma fix_loop_keys: "map (item_key U) (fix_loop c xs) = map (item_key U) xs"
  by (induction xs arbitrary: c) (simp_all add: Let_def item_key_def)

lemma fix_loop_pages: "map it_page (fix_loop c xs) = map it_page xs"
  by (induction xs arbitrary: c) (simp_all add: Let_def)

lemma remove_duplicates_keys:
  "distinct (map (item_key U) (remove_duplicates U seen xs)) \<and>
   set (map (item_key U) (remove_duplicates U seen xs)) \<inter> seen = {}"
proof (induction xs arbitrary: seen)
  case Nil
  then show ?case by simp
next
  case (Cons x xs)
  show ?case
    using Cons.IH [of seen] Cons.IH [of "insert (item_key U x) seen"]
    by (auto simp add: Let_def item_key_def)
qed

lemma remove_duplicates_id:
  "distinct (map (item_key U) xs) \<Longrightarrow> set (map (item_key U) xs) \<inter> seen = {} \<Longrightarrow>
   remove_duplicates U seen xs = xs"
proof (induction xs arbitrary: seen)
  case Nil
  then show ?case by simp
next
  case (Cons x xs)
  have "remove_duplicates U (insert (item_key U x) seen) xs = xs"
    using Cons.prems by (intro Cons.IH) auto
  with Cons.prems show ?case
    by (auto simp add: Let_def item_key_def)
qed

lemma distinct_keys_sort:
  "distinct (map (item_key U) xs) \<Longrightarrow> distinct (map (item_key U) (sort_key it_page xs))"
  by (simp add: distinct_map)

text \<open>
  C5. \<open>_refine_outline\<close> is idempotent: applied to its own output it returns that output.
\<close>

theorem refine_outline_idempotent:
  "refine_outline U (refine_outline U xs) = refine_outline U xs"
proof (cases "refine_outline U xs = []")
  case True
  then show ?thesis by (simp add: refine_outline_def)
next
  case False
  define ys where "ys = refine_outline U xs"
  define zs where "zs = sort_key it_page (remove_duplicates U {} xs)"
  have ys: "ys = fix_loop 1 zs"
    using False
    by (auto simp add: ys_def zs_def refine_outline_def fix_hierarchy_def split: if_splits)
  have "distinct (map (item_key U) zs)"
    unfolding zs_def using remove_duplicates_keys [of U "{}" xs]
    by (simp add: distinct_keys_sort)
  then have "distinct (map (item_key U) ys)" by (simp add: ys fix_loop_keys)
  then have 1: "remove_duplicates U {} ys = ys" by (simp add: remove_duplicates_id)
  have "sorted (map it_page zs)" by (simp add: zs_def)
  then have "sorted (map it_page ys)" by (simp add: ys fix_loop_pages)
  then have 2: "sort_key it_page ys = ys" by (rule sort_key_id_if_sorted)
  have "repaired 1 ys" by (simp add: ys fix_loop_repaired)
  then have 3: "fix_loop 1 ys = ys" by (rule repaired_fix_loop_id)
  have "refine_outline U ys = fix_loop 1 (sort_key it_page (remove_duplicates U {} ys))"
    using False 1 2 by (simp add: ys_def [symmetric] refine_outline_def fix_hierarchy_def)
  also have "\<dots> = ys" by (simp add: 1 2 3)
  finally show ?thesis by (simp add: ys_def)
qed

section \<open>The heading-level classifier\<close>

lemmas rx_eval = Plus_def Opt_def digit_def space_def any_char_def one_of_def capital_def
  one_of_I_def period_def dollar_def ascii_letter_def
lemmas classifier_eval = detect_heading_level_def pat_num3_def pat_num2_def pat_num1_def
  pat_roman_def pat_letter_def

lemma starts_with_contains: "starts_with b s \<Longrightarrow> contains b s"
  by (cases s; cases b) simp_all

lemma starts_with_append: "starts_with (a @ b) s \<Longrightarrow> starts_with b (drop (length a) s)"
proof (induction a arbitrary: s)
  case Nil
  then show ?case by simp
next
  case (Cons x a)
  then show ?case by (cases s) simp_all
qed

lemma contains_drop: "contains b (drop n s) \<Longrightarrow> contains b s"
proof (induction s arbitrary: n)
  case Nil
  then show ?case by simp
next
  case (Cons c s)
  show ?case
  proof (cases n)
    case 0
    with Cons.prems show ?thesis by simp
  next
    case (Suc k)
    with Cons.prems have "contains b (drop k s)" by simp
    then have "contains b s" by (rule Cons.IH)
    then show ?thesis by simp
  qed
qed

lemma contains_suffix: "contains (a @ b) s \<Longrightarrow> contains b s"
proof (induction s)
  case Nil
  then show ?case by simp
next
  case (Cons c s)
  from Cons.prems have "starts_with (a @ b) (c # s) \<or> contains (a @ b) s" by simp
  then show ?case
  proof
    assume "starts_with (a @ b) (c # s)"
    then have "starts_with b (drop (length a) (c # s))" by (rule starts_with_append)
    then have "contains b (drop (length a) (c # s))" by (rule starts_with_contains)
    then show ?thesis by (rule contains_drop)
  next
    assume "contains (a @ b) s"
    then have "contains b s" by (rule Cons.IH)
    then show ?thesis by simp
  qed
qed

lemma subsection_contains_section:
  "contains (u ''subsection'') s \<Longrightarrow> contains (u ''section'') s"
proof -
  have "u ''subsection'' = u ''sub'' @ u ''section''" by (simp add: u_def)
  then show "contains (u ''subsection'') s \<Longrightarrow> contains (u ''section'') s"
    using contains_suffix [of "u ''sub''" "u ''section''" s] by simp
qed

text \<open>
  C3. A text whose lower-cased form contains \<open>subsection\<close> and that meets none of the
  earlier rules is classified \<open>h2\<close>, not \<open>h3\<close>: \<open>section\<close> is tested first and occurs
  in every text in which \<open>subsection\<close> occurs, so the branch for \<open>subsection\<close> is never
  reached.
\<close>

theorem subsection_classified_h2:
  "contains (u ''subsection'') (py_lower U text) \<Longrightarrow> no_earlier_rule U text \<Longrightarrow>
   detect_heading_level U text font_size flags avg_font_size = u ''h2'' \<and>
   detect_heading_level U text font_size flags avg_font_size \<noteq> u ''h3''"
proof -
  assume sub: "contains (u ''subsection'') (py_lower U text)"
    and earlier: "no_earlier_rule U text"
  from sub have "contains (u ''section'') (py_lower U text)"
    by (rule subsection_contains_section)
  with earlier have "detect_heading_level U text font_size flags avg_font_size = u ''h2''"
    by (simp add: detect_heading_level_def no_earlier_rule_def Let_def)
  moreover have "u ''h2'' \<noteq> u ''h3''" by (simp add: u_def)
  ultimately show ?thesis by simp
qed

theorem subsection_classified_h2_witness:
  "contains (u ''subsection'') (py_lower ascii_runtime (u ''Subsection overview'')) \<and>
   no_earlier_rule ascii_runtime (u ''Subsection overview'') \<and>
   detect_heading_level ascii_runtime (u ''Subsection overview'') 12 (Some 0) 12 = u ''h2''"
proof -
  have 1: "contains (u ''subsection'') (py_lower ascii_runtime (u ''Subsection overview''))"
    by (simp add: string_eval)
  have 2: "no_earlier_rule ascii_runtime (u ''Subsection overview'')"
    by (simp add: no_earlier_rule_def classifier_eval rx_eval string_eval)
  from 1 2 subsection_classified_h2 [OF 1 2, of 12 "Some 0" 12] show ?thesis by simp
qed

text \<open>
  C9. The classifier returns \<open>h2\<close> for \<open>1.1 Overview\<close>, \<open>h1\<close> for \<open>Chapter 3\<close> and \<open>h1\<close>
  for \<open>Random text\<close> at size 24 with average 12; when no rule on the text applies it
  returns \<open>h1\<close>, \<open>h2\<close>, \<open>h3\<close> or \<open>h4\<close> as the ratio of the font size to the average is
  at least 1.8, 1.5, 1.2 or less, an average that is not positive giving the ratio 1. The
  ratio is the float quotient of the two sizes, and the bounds are the doubles of the
  three literals, so that the sizes \<open>12.6\<close> and \<open>7.0\<close>, whose quotient rounds to the double
  \<open>1.8\<close>, give \<open>h1\<close>.
\<close>

theorem detect_heading_level_fixtures:
  "detect_heading_level ascii_runtime (u ''1.1 Overview'') 14 (Some 0) 12 = u ''h2'' \<and>
   detect_heading_level ascii_runtime (u ''Chapter 3'') 14 (Some 0) 12 = u ''h1'' \<and>
   detect_heading_level ascii_runtime (u ''Random text'') 24 (Some 0) 12 = u ''h1'' \<and>
   (no_rule_matches U text \<longrightarrow>
      detect_heading_level U text font_size flags avg_font_size =
        (let r = (if avg_font_size \<le> 0 then 1 else py_div U font_size avg_font_size)
         in if r \<ge> float_1_8 then u ''h1'' else if r \<ge> 3 / 2 then u ''h2''
            else if r \<ge> float_1_2 then u ''h3'' else u ''h4''))"
proof -
  have 1: "detect_heading_level ascii_runtime (u ''1.1 Overview'') 14 (Some 0) 12 = u ''h2''"
    by (simp add: classifier_eval rx_eval string_eval)
  have 2: "detect_heading_level ascii_runtime (u ''Chapter 3'') 14 (Some 0) 12 = u ''h1''"
    by (simp add: classifier_eval rx_eval string_eval)
  have 3: "detect_heading_level ascii_runtime (u ''Random text'') 24 (Some 0) 12 = u ''h1''"
    by (simp add: classifier_eval rx_eval string_eval ieee_eval float_1_8_def)
  have 4: "no_rule_matches U text \<longrightarrow>
      detect_heading_level U text font_size flags avg_font_size =
        (let r = (if avg_font_size \<le> 0 then 1 else py_div U font_size avg_font_size)
         in if r \<ge> float_1_8 then u ''h1'' else if r \<ge> 3 / 2 then u ''h2''
            else if r \<ge> float_1_2 then u ''h3'' else u ''h4'')"
    by (simp add: detect_heading_level_def no_rule_matches_def Let_def not_le)
  from 1 2 3 4 show ?thesis by simp
qed

theorem detect_heading_level_fixtures_witness:
  "no_rule_matches ascii_runtime (u ''Summary'') \<and>
   detect_heading_level ascii_runtime (u ''Summary'')
     (7093169413108531 / 562949953421312) (Some 0) 7 = u ''h1''"
proof -
  have 1: "no_rule_matches ascii_runtime (u ''Summary'')"
    by (simp add: no_rule_matches_def classifier_eval rx_eval string_eval)
  have 2: "py_div ascii_runtime (7093169413108531 / 562949953421312) 7 = float_1_8"
    using rounded_quotient(1) by (simp add: ascii_runtime_def)
  from 1 2 detect_heading_level_fixtures [of ascii_runtime "u ''Summary''"
      "7093169413108531 / 562949953421312" "Some 0" 7]
  show ?thesis by (simp add: Let_def)
qed
section \<open>The validator\<close>

lemma strip_prefix:
  "dropWhile isspace s = strip s @ rev (takeWhile isspace (rev (dropWhile isspace s)))"
proof -
  define a where "a = dropWhile isspace s"
  have "rev (dropWhile isspace (rev a)) @ rev (takeWhile isspace (rev a)) =
        rev (takeWhile isspace (rev a) @ dropWhile isspace (rev a))"
    by (simp only: rev_append)
  also have "\<dots> = a" by simp
  finally show ?thesis by (simp add: strip_def a_def)
qed

lemma strip_hd:
  assumes "strip s \<noteq> []"
  shows "\<not> isspace (hd (strip s))"
proof -
  have "dropWhile isspace s \<noteq> []"
  proof
    assume "dropWhile isspace s = []"
    then have "strip s = []" by (auto simp add: strip_def dest: set_dropWhileD)
    with assms show False by simp
  qed
  then have "\<not> isspace (hd (dropWhile isspace s))" by (rule hd_dropWhile)
  moreover have "hd (dropWhile isspace s) = hd (strip s)"
    using assms strip_prefix [of s] by (metis hd_append2)
  ultimately show ?thesis by simp
qed

lemma strip_Nil_iff: "strip t = [] \<longleftrightarrow> (\<forall>c\<in>set t. isspace c)"
proof
  assume "strip t = []"
  then have "\<forall>c\<in>set (dropWhile isspace t). isspace c"
    by (simp add: strip_def)
  then have "dropWhile isspace t = []"
    using hd_dropWhile [of isspace t] by (cases "dropWhile isspace t") auto
  then show "\<forall>c\<in>set t. isspace c" by simp
next
  assume "\<forall>c\<in>set t. isspace c"
  then show "strip t = []" by (auto simp add: strip_def dest: set_dropWhileD)
qed

lemma take_strip_not_blank:
  assumes "take n (strip s) \<noteq> []"
  shows "strip (take n (strip s)) \<noteq> []"
proof -
  from assms have s: "strip s \<noteq> []" and n: "0 < n" by (auto intro: Nat.gr0I)
  from n s have "hd (take n (strip s)) = hd (strip s)" by (cases "strip s"; cases n) simp_all
  with strip_hd [OF s] have "\<not> isspace (hd (take n (strip s)))" by simp
  moreover from assms have "hd (take n (strip s)) \<in> set (take n (strip s))"
    by (rule hd_in_set)
  ultimately show ?thesis unfolding strip_Nil_iff by blast
qed

lemma sanitized_level:
  "\<exists>l. (case level of
           PStr l \<Rightarrow> if l \<notin> valid_levels then PStr (u ''h1'') else level
         | _ \<Rightarrow> PStr (u ''h1'')) = PStr l \<and> l \<in> valid_levels"
  by (cases level) (simp_all add: valid_levels_def)

lemma sanitized_page:
  "\<exists>n. as_int (case as_int page of None \<Rightarrow> PInt 1
                | Some n \<Rightarrow> if n < 1 then PInt 1 else page) = Some n \<and> 1 \<le> n"
  by (cases page) auto

lemma sanitize_items_sanitized: "\<forall>item\<in>set (sanitize_items str_of outline). sanitized_item item"
proof (induction outline)
  case Nil
  then show ?case by simp
next
  case (Cons item outline)
  show ?case
  proof (cases item)
    case (PDict d)
    define tx where "tx = take 1000 (strip (to_str str_of (dict_get d (u ''text'') (PStr []))))"
    show ?thesis
    proof (cases "tx = []")
      case True
      with PDict Cons.IH show ?thesis by (simp add: Let_def tx_def)
    next
      case False
      obtain l where l: "(case dict_get d (u ''level'') (PStr (u ''h1'')) of
           PStr l \<Rightarrow> if l \<notin> valid_levels then PStr (u ''h1'') else dict_get d (u ''level'') (PStr (u ''h1''))
         | _ \<Rightarrow> PStr (u ''h1'')) = PStr l" "l \<in> valid_levels"
        using sanitized_level by blast
      obtain n where n: "as_int (case as_int (dict_get d (u ''page'') (PInt 1)) of None \<Rightarrow> PInt 1
                | Some n \<Rightarrow> if n < 1 then PInt 1 else dict_get d (u ''page'') (PInt 1)) = Some n" "1 \<le> n"
        using sanitized_page by blast
      have t: "strip tx \<noteq> []" "length tx \<le> 1000"
        using False take_strip_not_blank by (auto simp add: tx_def)
      have "sanitized_item (PDict [(u ''level'', PStr l), (u ''text'', PStr tx),
          (u ''page'', (case as_int (dict_get d (u ''page'') (PInt 1)) of None \<Rightarrow> PInt 1
                | Some n \<Rightarrow> if n < 1 then PInt 1 else dict_get d (u ''page'') (PInt 1)))])"
        unfolding sanitized_item_def using l n t by blast
      with PDict False Cons.IH l show ?thesis
        by (simp add: Let_def tx_def [symmetric])
    qed
  qed (use Cons.IH in simp_all)
qed

lemma sanitized_item_valid: "sanitized_item item \<Longrightarrow> validate_outline_item item"
  by (auto simp add: sanitized_item_def validate_outline_item_def dict_has_def dict_get_def u_def
      strip_Nil_iff)

text \<open>
  C10. For every dictionary, \<open>validate\<close> accepts what \<open>sanitize_data\<close> returns: the title
  is a string of at most 500 characters, and every item kept has a level among \<open>h1\<close> to
  \<open>h6\<close>, a text of at most 1000 characters that is not blank, and an integer page that
  is at least 1.
\<close>

theorem sanitize_data_valid:
  "validate (sanitize_data str_of d) \<and>
   (\<exists>title items.
      sanitize_data str_of d = PDict [(u ''title'', PStr title), (u ''outline'', PList items)] \<and>
      length title \<le> 500 \<and>
      (\<forall>item\<in>set items.
         \<exists>level text page n.
           item = PDict [(u ''level'', PStr level), (u ''text'', PStr text), (u ''page'', page)] \<and>
           level \<in> valid_levels \<and> strip text \<noteq> [] \<and> length text \<le> 1000 \<and>
           as_int page = Some n \<and> 1 \<le> n))"
proof -
  define title where "title = take 500 (strip (to_str str_of (dict_get d (u ''title'') (PStr []))))"
  define items where "items = sanitize_items str_of
     (case dict_get d (u ''outline'') (PList []) of PList items \<Rightarrow> items | _ \<Rightarrow> [])"
  have eq: "sanitize_data str_of d = PDict [(u ''title'', PStr title), (u ''outline'', PList items)]"
    by (simp add: sanitize_data_def Let_def title_def items_def)
  have len: "length title \<le> 500" by (simp add: title_def)
  have all: "\<forall>item\<in>set items. sanitized_item item"
    unfolding items_def by (rule sanitize_items_sanitized)
  then have "list_all validate_outline_item items"
    by (simp add: list_all_iff sanitized_item_valid)
  with len have "validate (sanitize_data str_of d)"
    by (simp add: eq validate_def validate_title_def validate_outline_def dict_has_def
        dict_get_def u_def)
  with eq len all show ?thesis unfolding sanitized_item_def by blast
qed

theorem sanitize_data_valid_witness:
  "validate (sanitize_data (\<lambda>v. []) raw_data) \<and>
   sanitize_data (\<lambda>v. []) raw_data =
     PDict [(u ''title'', PStr (u ''Annual Report'')),
            (u ''outline'', PList
               [PDict [(u ''level'', PStr (u ''h1'')), (u ''text'', PStr (u ''Scope'')),
                       (u ''page'', PInt 1)]])]"
  using sanitize_data_valid [of "\<lambda>v. []" raw_data]
  by (simp add: sanitize_data_def raw_data_def dict_get_def to_str_def valid_levels_def
      string_eval Let_def)

section \<open>The bookmark strategy\<close>

lemmas clean_text_eval = clean_text_def m_spaces_def m_unprintable_def m_dots_def
  m_spaced_dots_def m_spaced_dot_def Let_def

lemma clean_titles:
  "clean_text (u ''Intro'') = u ''Intro''"
  "clean_text (u ''Deep Dive'') = u ''Deep Dive''"
  "clean_text (u ''Background'') = u ''Background''"
  by (simp_all add: clean_text_eval string_eval)

lemma length_u: "length (u s) = length s"
  by (simp add: u_def)

lemma u_Nil_iff: "u s = [] \<longleftrightarrow> s = []"
  by (simp add: u_def)

lemma normalize_level_values:
  "normalize_level 1 = u ''h1''" "normalize_level 2 = u ''h2''" "normalize_level 3 = u ''h3''"
  by (simp_all add: normalize_level_def u_def)

lemma bookmark_loop_scenario:
  "bookmark_loop n [(1, u ''Intro'', p1), (3, u ''Deep Dive'', p2), (2, u ''Background'', p3)] =
     [\<lparr>it_level = u ''h1'', it_text = u ''Intro'', it_page = max 1 (min p1 n)\<rparr>,
      \<lparr>it_level = u ''h3'', it_text = u ''Deep Dive'', it_page = max 1 (min p2 n)\<rparr>,
      \<lparr>it_level = u ''h2'', it_text = u ''Background'', it_page = max 1 (min p3 n)\<rparr>]"
  by (simp add: clean_titles normalize_level_values length_u u_Nil_iff)

text \<open>
  C1, as the code has it. From the native outline \<open>(1, Intro)\<close>, \<open>(3, Deep Dive)\<close>,
  \<open>(2, Background)\<close> the extraction returns the three items in that order with the
  levels \<open>h1\<close>, \<open>h3\<close>, \<open>h2\<close>: a bookmark level is clamped to 1..6 and nothing else, the
  hierarchy repair is not applied to bookmarks.
\<close>

theorem extract_outline_bookmarks:
  "doc_toc doc = Inr [(1, u ''Intro'', p1), (3, u ''Deep Dive'', p2), (2, u ''Background'', p3)]
   \<Longrightarrow> map it_level (extract_outline U doc) = [u ''h1'', u ''h3'', u ''h2''] \<and>
       map it_text (extract_outline U doc) = [u ''Intro'', u ''Deep Dive'', u ''Background'']"
  by (simp add: extract_outline_def extract_from_bookmarks_def extract_from_bookmarks_try_def
      bookmark_loop_scenario Let_def del: bookmark_loop.simps)

theorem extract_outline_bookmarks_witness:
  "doc_toc bookmark_doc =
     Inr [(1, u ''Intro'', 1), (3, u ''Deep Dive'', 2), (2, u ''Background'', 2)] \<and>
   map it_level (extract_outline ascii_runtime bookmark_doc) = [u ''h1'', u ''h3'', u ''h2'']"
proof -
  have h: "doc_toc bookmark_doc =
     Inr [(1, u ''Intro'', 1), (3, u ''Deep Dive'', 2), (2, u ''Background'', 2)]"
    by (simp add: bookmark_doc_def)
  from h extract_outline_bookmarks [OF h, of ascii_runtime] show ?thesis by simp
qed

theorem extract_outline_bookmarks_counterexample:
  "map it_level (extract_outline ascii_runtime bookmark_doc) \<noteq> [u ''h1'', u ''h2'', u ''h2''] \<and>
   \<not> level_map (it_level (extract_outline ascii_runtime bookmark_doc ! 1))
       \<le> level_map (it_level (extract_outline ascii_runtime bookmark_doc ! 0)) + 1"
proof -
  have "extract_outline ascii_runtime bookmark_doc =
     [\<lparr>it_level = u ''h1'', it_text = u ''Intro'', it_page = 1\<rparr>,
      \<lparr>it_level = u ''h3'', it_text = u ''Deep Dive'', it_page = 2\<rparr>,
      \<lparr>it_level = u ''h2'', it_text = u ''Background'', it_page = 2\<rparr>]"
    by (simp add: extract_outline_def extract_from_bookmarks_def extract_from_bookmarks_try_def
      bookmark_loop_scenario Let_def bookmark_doc_def page_count_def del: bookmark_loop.simps)
  then show ?thesis by (simp add: level_map_def u_def)
qed

section \<open>The metadata strategy of the title\<close>

lemma dropWhile_strip: "dropWhile isspace (strip s) = strip s"
proof (cases "strip s")
  case Nil
  then show ?thesis by simp
next
  case (Cons c t)
  with strip_hd [of s] have "\<not> isspace c" by simp
  with Cons show ?thesis by simp
qed

lemma strip_idem: "strip (strip s) = strip s"
proof -
  have "strip (strip s) = rev (dropWhile isspace (rev (strip s)))"
    by (simp add: strip_def [of "strip s"] dropWhile_strip)
  also have "rev (strip s) = dropWhile isspace (rev (dropWhile isspace s))"
    by (simp add: strip_def)
  also have "rev (dropWhile isspace \<dots>) = strip s"
    by (simp add: strip_def)
  finally show ?thesis .
qed

lemma clean_text_strip: "clean_text (strip s) = clean_text s"
  by (simp add: clean_text_def strip_idem)

text \<open>
  C4, as the code has it. The metadata strategy accepts the title exactly when its
  length after stripping the white space around it, before it is cleaned, exceeds 3. When it accepts and the
  cleaned title is not empty, \<open>extract_title\<close> returns the cleaned title whatever the
  bookmarks and the pages of the document are.
\<close>

theorem extract_title_metadata:
  "doc_metadata_title doc = Title t \<Longrightarrow>
   extract_from_metadata doc = (if length (strip t) > 3 then Some (clean_text t) else None) \<and>
   (length (strip t) > 3 \<and> clean_text t \<noteq> [] \<longrightarrow> extract_title U doc = clean_text t)"
  by (auto simp add: extract_from_metadata_def extract_from_metadata_try_def Let_def
      clean_text_strip extract_title_def truthy_def)

lemma annual_report:
  "strip (u ''Annual Report 2023'') = u ''Annual Report 2023''"
  "clean_text (u ''Annual Report 2023'') = u ''Annual Report 2023''"
  by (simp_all add: clean_text_eval string_eval)

theorem extract_title_metadata_witness:
  "doc_metadata_title (titled_doc (u ''Annual Report 2023'')) = Title (u ''Annual Report 2023'') \<and>
   length (strip (u ''Annual Report 2023'')) > 3 \<and>
   clean_text (u ''Annual Report 2023'') \<noteq> [] \<and>
   extract_title ascii_runtime (titled_doc (u ''Annual Report 2023'')) = u ''Annual Report 2023''"
proof -
  have h: "doc_metadata_title (titled_doc (u ''Annual Report 2023'')) = Title (u ''Annual Report 2023'')"
    by (simp add: titled_doc_def)
  have l: "length (strip (u ''Annual Report 2023'')) > 3" "clean_text (u ''Annual Report 2023'') \<noteq> []"
    by (simp_all add: annual_report) (simp_all add: u_def)
  from h l extract_title_metadata [OF h, of ascii_runtime] show ?thesis
    by (simp add: annual_report)
qed

theorem extract_title_metadata_counterexample:
  "extract_from_metadata (titled_doc (u ''....'')) = Some (u ''...'') \<and>
   \<not> length (clean_text (u ''....'')) > 3"
  by (simp add: extract_from_metadata_def extract_from_metadata_try_def titled_doc_def
      clean_text_eval string_eval)

section \<open>Text cleaning\<close>

subsection \<open>The pass for white space\<close>

lemma strip_rstrip: "strip s = rstrip (dropWhile isspace s)"
  by (simp add: strip_def rstrip_def)

lemma rstrip_blank: "\<forall>c\<in>set s. isspace c \<Longrightarrow> rstrip s = []"
  by (simp add: rstrip_def)

lemma rstrip_append: "\<exists>c\<in>set b. \<not> isspace c \<Longrightarrow> rstrip (a @ b) = a @ rstrip b"
  by (auto simp add: rstrip_def dropWhile_append)

lemma dropWhile_none: "\<forall>c\<in>set s. \<not> P c \<Longrightarrow> dropWhile P s = s"
  by (cases s) simp_all

lemma rstrip_word: "\<forall>c\<in>set w. \<not> isspace c \<Longrightarrow> rstrip w = w"
  by (simp add: rstrip_def dropWhile_none)

lemma rstrip_word_blank:
  "\<forall>c\<in>set w. \<not> isspace c \<Longrightarrow> \<forall>c\<in>set b. isspace c \<Longrightarrow> rstrip (w @ b) = w"
  by (simp add: rstrip_def dropWhile_append dropWhile_none)

lemma rstrip_Nil_iff: "rstrip s = [] \<longleftrightarrow> (\<forall>c\<in>set s. isspace c)"
  by (auto simp add: rstrip_def)

lemma rstrip_hd: "\<not> isspace c \<Longrightarrow> rstrip (c # s) = c # rstrip s"
proof (cases "\<exists>x\<in>set s. \<not> isspace x")
  case True
  then show ?thesis using rstrip_append [of s "[c]"] by simp
next
  case False
  assume "\<not> isspace c"
  with False show ?thesis by (simp add: rstrip_def dropWhile_append)
qed

lemma ws_words_dropWhile: "ws_words (dropWhile isspace s) = ws_words s"
  by (simp add: ws_words.simps [of s] ws_words.simps [of "dropWhile isspace s"])

lemma ws_words_blank: "\<forall>c\<in>set s. isspace c \<Longrightarrow> ws_words s = []"
proof -
  assume "\<forall>c\<in>set s. isspace c"
  then have "dropWhile isspace s = []" by simp
  then show ?thesis by (simp add: ws_words.simps [of s] del: dropWhile_eq_Nil_conv)
qed

lemma ws_words_Cons:
  "\<not> isspace c \<Longrightarrow>
   ws_words (c # t) =
     (c # takeWhile (\<lambda>x. \<not> isspace x) t) # ws_words (dropWhile (\<lambda>x. \<not> isspace x) t)"
  by (simp add: ws_words.simps [of "c # t"])

lemma ws_words_Nil_iff: "ws_words s = [] \<longleftrightarrow> (\<forall>c\<in>set s. isspace c)"
proof
  assume a: "ws_words s = []"
  show "\<forall>c\<in>set s. isspace c"
  proof (cases "dropWhile isspace s")
    case Nil
    then show ?thesis by simp
  next
    case (Cons c t)
    with a show ?thesis by (simp add: ws_words.simps [of s])
  qed
next
  assume "\<forall>c\<in>set s. isspace c"
  then show "ws_words s = []" by (rule ws_words_blank)
qed

lemma re_sub_spaces_Cons:
  "re_sub m_spaces r (d # s) =
     (if isspace d then r @ re_sub m_spaces r (dropWhile isspace s)
      else d # re_sub m_spaces r s)"
  by (simp add: m_spaces_def length_dropWhile_le)

lemma re_sub_spaces_word:
  "\<forall>c\<in>set w. \<not> isspace c \<Longrightarrow> re_sub m_spaces r (w @ s) = w @ re_sub m_spaces r s"
  by (induction w) (simp_all add: re_sub_spaces_Cons del: re_sub.simps)

lemma join_words_Cons: "ws \<noteq> [] \<Longrightarrow> join_words (w # ws) = w @ 32 # join_words ws"
  by (cases ws) simp_all

text \<open>On a string that starts with a word, the pass gives the words joined by spaces.\<close>

lemma re_sub_spaces_words:
  "re_sub m_spaces (u '' '') (rstrip (dropWhile isspace s)) = join_words (ws_words s)"
proof (induction s rule: length_induct)
  case (1 s)
  show ?case
  proof (cases "dropWhile isspace s")
    case Nil
    then show ?thesis
      by (simp add: ws_words.simps [of s] rstrip_def del: dropWhile_eq_Nil_conv)
  next
    case (Cons c t)
    define w where "w = c # takeWhile (\<lambda>x. \<not> isspace x) t"
    define rest where "rest = dropWhile (\<lambda>x. \<not> isspace x) t"
    have c: "\<not> isspace c" using Cons hd_dropWhile [of isspace s] by auto
    have ww: "\<forall>x\<in>set w. \<not> isspace x"
      using c by (auto simp add: w_def dest: set_takeWhileD)
    have split: "dropWhile isspace s = w @ rest" by (simp add: Cons w_def rest_def)
    have words: "ws_words s = w # ws_words rest"
      by (simp add: ws_words.simps [of s] Cons w_def rest_def)
    have "length (dropWhile isspace s) \<le> length s" by (rule length_dropWhile_le)
    then have len: "length rest < length s" by (simp add: split w_def)
    show ?thesis
    proof (cases "\<forall>x\<in>set rest. isspace x")
      case True
      with ww have "rstrip (w @ rest) = w" by (rule rstrip_word_blank)
      moreover have "re_sub m_spaces (u '' '') w = w"
        using re_sub_spaces_word [OF ww, of "u '' ''" "[]"] by simp
      moreover have "ws_words rest = []" using True by (rule ws_words_blank)
      ultimately show ?thesis by (simp add: split words)
    next
      case False
      define rest' where "rest' = dropWhile isspace rest"
      have ne: "rest' \<noteq> []" using False by (simp add: rest'_def)
      have rs: "rest \<noteq> []" using False by auto
      have "rest = [] \<or> isspace (hd rest)"
        unfolding rest_def using hd_dropWhile [of "\<lambda>x. \<not> isspace x" t] by blast
      with rs have sp: "isspace (hd rest)" by simp
      obtain d rest0 where r0: "rest = d # rest0" using rs by (cases rest) auto
      with sp have d: "isspace d" by simp
      have dr: "dropWhile isspace rest0 = rest'" using r0 d by (simp add: rest'_def)
      have hn: "\<not> isspace (hd rest')"
        using ne hd_dropWhile [of isspace rest] by (simp add: rest'_def)
      have "hd rest' \<in> set rest'" using ne by simp
      with hn have ex: "\<exists>x\<in>set rest'. \<not> isspace x" by blast
      from ex have nb: "rstrip rest' \<noteq> []" by (simp add: rstrip_Nil_iff)
      have "rstrip (w @ rest) = w @ rstrip rest"
        using False by (auto intro: rstrip_append)
      also have "rstrip rest = d # rstrip rest0"
      proof -
        have "\<exists>x\<in>set rest0. \<not> isspace x" using False r0 d by auto
        then show ?thesis using rstrip_append [of rest0 "[d]"] by (simp add: r0)
      qed
      finally have a: "rstrip (w @ rest) = w @ d # rstrip rest0" .
      have ta: "rest0 = takeWhile isspace rest0 @ rest'"
        using dr by (metis takeWhile_dropWhile_id)
      have "rstrip rest0 = takeWhile isspace rest0 @ rstrip rest'"
        using rstrip_append [OF ex, of "takeWhile isspace rest0"] ta by simp
      then have b: "dropWhile isspace (rstrip rest0) = rstrip rest'"
      proof -
        assume e: "rstrip rest0 = takeWhile isspace rest0 @ rstrip rest'"
        have "hd (rstrip rest') = hd rest'"
          using ne hn rstrip_hd [of "hd rest'" "tl rest'"] by simp
        with nb hn have "dropWhile isspace (rstrip rest') = rstrip rest'"
          by (cases "rstrip rest'") simp_all
        then show ?thesis
          by (simp add: e dropWhile_append) (auto dest: set_takeWhileD)
      qed
      have "re_sub m_spaces (u '' '') (w @ d # rstrip rest0) =
            w @ u '' '' @ re_sub m_spaces (u '' '') (rstrip rest')"
        using ww d b
        by (simp add: re_sub_spaces_word re_sub_spaces_Cons del: re_sub.simps)
      moreover have "rstrip rest' = rstrip (dropWhile isspace rest)" by (simp add: rest'_def)
      moreover have "re_sub m_spaces (u '' '') (rstrip (dropWhile isspace rest)) =
                     join_words (ws_words rest)"
        using 1 len by blast
      moreover have "ws_words rest \<noteq> []" using False by (simp add: ws_words_Nil_iff)
      ultimately show ?thesis
        by (simp add: split words a join_words_Cons u_def)
    qed
  qed
qed

lemma re_sub_spaces_strip:
  "re_sub m_spaces (u '' '') (strip s) = join_words (ws_words s)"
  by (simp add: strip_rstrip re_sub_spaces_words)

subsection \<open>The passes for characters and for runs of dots\<close>

lemma re_sub_unprintable: "re_sub m_unprintable [] s = filter printable s"
  by (induction s) (simp_all add: m_unprintable_def)

lemma re_sub_dots_Cons:
  "re_sub m_dots r (c # s) =
     (if 3 \<le> leading_dots (c # s) then r @ re_sub m_dots r (dropWhile (\<lambda>x. x = dot) s)
      else c # re_sub m_dots r s)"
proof (cases "3 \<le> leading_dots (c # s)")
  case True
  then have c: "c = dot" by (auto simp add: leading_dots_def split: if_splits)
  have "length (dropWhile (\<lambda>x. x = dot) s) \<le> length s" by (rule length_dropWhile_le)
  with True c show ?thesis by (simp add: m_dots_def leading_dots_def)
next
  case False
  then show ?thesis by (simp add: m_dots_def leading_dots_def)
qed

lemma re_sub_dots_others:
  "\<forall>c\<in>set a. c \<noteq> dot \<Longrightarrow> re_sub m_dots r (a @ s) = a @ re_sub m_dots r s"
  by (induction a) (simp_all add: re_sub_dots_Cons leading_dots_def del: re_sub.simps)

lemma leading_dots_replicate:
  "\<not> starts_with [dot] s \<Longrightarrow> leading_dots (replicate k dot @ s) = k"
  by (induction k) (cases s; simp add: leading_dots_def)+

lemma re_sub_dots_few:
  "k < 3 \<Longrightarrow> \<not> starts_with [dot] s \<Longrightarrow>
   re_sub m_dots r (replicate k dot @ s) = replicate k dot @ re_sub m_dots r s"
proof (induction k)
  case 0
  then show ?case by simp
next
  case (Suc k)
  then have "leading_dots (replicate (Suc k) dot @ s) = Suc k"
    using leading_dots_replicate [of s "Suc k"] by simp
  then have "leading_dots (dot # replicate k dot @ s) = Suc k" by simp
  with Suc show ?case by (simp add: re_sub_dots_Cons del: re_sub.simps)
qed

lemma re_sub_dots_many:
  "3 \<le> k \<Longrightarrow> \<not> starts_with [dot] s \<Longrightarrow>
   re_sub m_dots r (replicate k dot @ s) = r @ re_sub m_dots r s"
proof -
  assume k: "3 \<le> k" and s: "\<not> starts_with [dot] s"
  then obtain j where j: "k = Suc j" by (cases k) auto
  have l: "leading_dots (dot # replicate j dot @ s) = k"
    using leading_dots_replicate [OF s, of k] by (simp add: j)
  have "dropWhile (\<lambda>x. x = dot) (replicate j dot @ s) = s"
    using s by (cases s) (simp_all add: dropWhile_append)
  with l k show ?thesis by (simp add: j re_sub_dots_Cons del: re_sub.simps)
qed

lemma re_sub_dots_collapse: "re_sub m_dots (u ''...'') s = collapse_dots s"
proof (induction s rule: length_induct)
  case (1 s)
  show ?case
  proof (cases s)
    case Nil
    then show ?thesis by (simp add: collapse_dots_def)
  next
    case (Cons c t)
    define p where "p = (\<lambda>x. (x = dot) = (c = dot))"
    define run where "run = c # takeWhile p t"
    define rest where "rest = dropWhile p t"
    have s: "s = run @ rest" by (simp add: Cons run_def rest_def)
    have "length rest \<le> length t" unfolding rest_def by (rule length_dropWhile_le)
    then have "length rest < length s" by (simp add: Cons)
    with 1 have ih: "re_sub m_dots (u ''...'') rest = collapse_dots rest" by blast
    have "dot_runs s = run # dot_runs rest"
      by (simp add: Cons run_def rest_def p_def)
    then have cd: "collapse_dots s =
        (if hd run = dot \<and> 3 \<le> length run then u ''...'' else run) @ collapse_dots rest"
      by (simp add: collapse_dots_def)
    have rh: "rest = [] \<or> \<not> p (hd rest)"
      unfolding rest_def using hd_dropWhile [of p t] by blast
    show ?thesis
    proof (cases "c = dot")
      case True
      then have pd: "p = (\<lambda>x. x = dot)" by (simp add: p_def)
      have "\<forall>x\<in>set run. x = dot"
        using True by (auto simp add: run_def pd dest: set_takeWhileD)
      then have run: "run = replicate (length run) dot" by (simp add: replicate_length_same)
      have nd: "\<not> starts_with [dot] rest" using rh by (cases rest) (simp_all add: pd)
      have hd: "hd run = dot" using True by (simp add: run_def)
      show ?thesis
      proof (cases "3 \<le> length run")
        case True
        have "re_sub m_dots (u ''...'') (replicate (length run) dot @ rest) =
              u ''...'' @ re_sub m_dots (u ''...'') rest"
          using True nd by (rule re_sub_dots_many)
        with run have "re_sub m_dots (u ''...'') s = u ''...'' @ collapse_dots rest"
          by (simp add: s ih)
        with True hd show ?thesis by (simp add: cd)
      next
        case False
        then have "length run < 3" by simp
        then have "re_sub m_dots (u ''...'') (replicate (length run) dot @ rest) =
              replicate (length run) dot @ re_sub m_dots (u ''...'') rest"
          using nd by (rule re_sub_dots_few)
        with run have "re_sub m_dots (u ''...'') s = run @ collapse_dots rest"
          by (simp add: s ih)
        with False show ?thesis by (simp add: cd)
      qed
    next
      case False
      then have pd: "p = (\<lambda>x. x \<noteq> dot)" by (auto simp add: p_def)
      have nd: "\<forall>x\<in>set run. x \<noteq> dot"
        using False by (auto simp add: run_def pd dest: set_takeWhileD)
      then have "re_sub m_dots (u ''...'') (run @ rest) = run @ re_sub m_dots (u ''...'') rest"
        by (rule re_sub_dots_others)
      moreover have "hd run \<noteq> dot" using False by (simp add: run_def)
      ultimately show ?thesis by (simp add: s [symmetric] cd ih)
    qed
  qed
qed

subsection \<open>The pass for spaced dots\<close>

lemma printable_dot: "printable dot" "\<not> isspace dot"
  by (simp_all add: printable_def dot_def isspace_def)

lemma spaced_pair_free_append: "spaced_pair_free (a @ b) \<Longrightarrow> spaced_pair_free b"
  by (induction a) simp_all

lemma spaced_pair_free_dropWhile: "spaced_pair_free s \<Longrightarrow> spaced_pair_free (dropWhile P s)"
  using spaced_pair_free_append [of "takeWhile P s" "dropWhile P s"] by simp

lemma m_spaced_dot_Some: "m_spaced_dot s = Some t \<longleftrightarrow> dropWhile isspace s = dot # t"
  by (cases "dropWhile isspace s") (auto simp add: m_spaced_dot_def simp del: dropWhile_eq_Nil_conv)

lemma dot_after_dot:
  assumes "spaced_pair_free (dot # s)" and "dropWhile isspace s = dot # t"
  shows "s = dot # t"
proof -
  from assms have "dropWhile isspace s = s" by auto
  with assms(2) show ?thesis by simp
qed

lemma m_spaced_dots_free:
  assumes "spaced_pair_free s" and "m_spaced_dots s = Some rest"
  shows "dropWhile isspace s = dot # dot # dot # rest"
proof -
  from assms(2) obtain s1 s2 where 1: "m_spaced_dot s = Some s1"
    and 2: "m_spaced_dot s1 = Some s2" and 3: "m_spaced_dot s2 = Some rest"
    by (auto simp add: m_spaced_dots_def split: option.splits)
  from 1 have d1: "dropWhile isspace s = dot # s1" by (simp add: m_spaced_dot_Some)
  from assms(1) have "spaced_pair_free (dropWhile isspace s)"
    by (rule spaced_pair_free_dropWhile)
  with d1 have f1: "spaced_pair_free (dot # s1)" by simp
  from 2 have "dropWhile isspace s1 = dot # s2" by (simp add: m_spaced_dot_Some)
  with f1 have e1: "s1 = dot # s2" by (rule dot_after_dot)
  from f1 e1 have f2: "spaced_pair_free (dot # s2)" by simp
  from 3 have "dropWhile isspace s2 = dot # rest" by (simp add: m_spaced_dot_Some)
  with f2 have "s2 = dot # rest" by (rule dot_after_dot)
  with d1 e1 show ?thesis by simp
qed

lemma m_spaced_dots_three:
  assumes "dropWhile isspace s = dot # dot # dot # rest"
  shows "m_spaced_dots s = Some rest"
proof -
  have "m_spaced_dot s = Some (dot # dot # rest)"
    using assms by (simp add: m_spaced_dot_Some)
  moreover have "m_spaced_dot (dot # dot # rest) = Some (dot # rest)"
    by (simp add: m_spaced_dot_Some printable_dot)
  moreover have "m_spaced_dot (dot # rest) = Some rest"
    by (simp add: m_spaced_dot_Some printable_dot)
  ultimately show ?thesis by (simp add: m_spaced_dots_def)
qed

lemma starts_with_three:
  "starts_with (u ''...'') s \<longleftrightarrow> (\<exists>rest. s = dot # dot # dot # rest)"
proof -
  have "starts_with [dot, dot, dot] s \<longleftrightarrow> (\<exists>rest. s = dot # dot # dot # rest)"
  proof (cases s)
    case Nil
    then show ?thesis by simp
  next
    case s1: (Cons a s1)
    show ?thesis
    proof (cases s1)
      case Nil
      with s1 show ?thesis by simp
    next
      case s2: (Cons b s2)
      show ?thesis by (cases s2) (auto simp add: s1 s2)
    qed
  qed
  moreover have "u ''...'' = [dot, dot, dot]" by (simp add: u_def dot_def)
  ultimately show ?thesis by simp
qed

lemma close_up_three:
  "dropWhile isspace s = dot # dot # dot # rest \<Longrightarrow> close_up s = dot # dot # dot # close_up rest"
proof (induction s)
  case Nil
  then show ?case by simp
next
  case (Cons c s)
  show ?case
  proof (cases "isspace c")
    case True
    with Cons.prems have d: "dropWhile isspace s = dot # dot # dot # rest" by simp
    then have "starts_with (u ''...'') (dropWhile isspace s)" by (simp add: starts_with_three)
    with True Cons.IH [OF d] show ?thesis by simp
  next
    case False
    with Cons.prems have "c # s = dot # dot # dot # rest" by simp
    then show ?thesis by (simp add: printable_dot)
  qed
qed

lemma re_sub_spaced_dots_close_up:
  "spaced_pair_free s \<Longrightarrow> re_sub m_spaced_dots (u ''...'') s = close_up s"
proof (induction s rule: length_induct)
  case (1 s)
  show ?case
  proof (cases s)
    case Nil
    then show ?thesis by simp
  next
    case (Cons c t)
    from 1(2) have ft: "spaced_pair_free t" by (simp add: Cons)
    have "length t < length s" by (simp add: Cons)
    with 1(1) ft have iht: "re_sub m_spaced_dots (u ''...'') t = close_up t" by blast
    show ?thesis
    proof (cases "m_spaced_dots (c # t)")
      case None
      have "\<not> (isspace c \<and> starts_with (u ''...'') (dropWhile isspace t))"
      proof
        assume a: "isspace c \<and> starts_with (u ''...'') (dropWhile isspace t)"
        then obtain rest where "dropWhile isspace t = dot # dot # dot # rest"
          by (auto simp add: starts_with_three)
        with a have "dropWhile isspace (c # t) = dot # dot # dot # rest" by simp
        then have "m_spaced_dots (c # t) = Some rest" by (rule m_spaced_dots_three)
        with None show False by simp
      qed
      with None iht show ?thesis by (simp add: Cons)
    next
      case (Some rest)
      from 1(2) Some have d: "dropWhile isspace (c # t) = dot # dot # dot # rest"
        unfolding Cons by (rule m_spaced_dots_free)
      have "length (dropWhile isspace (c # t)) \<le> length (c # t)" by (rule length_dropWhile_le)
      with d have len: "length rest \<le> length t" by simp
      from 1(2) have "spaced_pair_free (dropWhile isspace (c # t))"
        unfolding Cons by (rule spaced_pair_free_dropWhile)
      with d have "spaced_pair_free ([dot, dot, dot] @ rest)" by simp
      then have "spaced_pair_free rest" by (rule spaced_pair_free_append)
      moreover have "length rest < length s" using len by (simp add: Cons)
      ultimately have "re_sub m_spaced_dots (u ''...'') rest = close_up rest"
        using 1(1) by blast
      with Some len have "re_sub m_spaced_dots (u ''...'') (c # t) = u ''...'' @ close_up rest"
        by simp
      moreover have "close_up (c # t) = dot # dot # dot # close_up rest"
        using d by (rule close_up_three)
      ultimately show ?thesis by (simp add: Cons u_def dot_def)
    qed
  qed
qed

subsection \<open>Runs of dots\<close>

lemma starts_with_dots:
  "starts_with (replicate n dot) s \<longleftrightarrow> n \<le> leading_dots s"
proof (induction n arbitrary: s)
  case 0
  then show ?case by simp
next
  case (Suc n)
  then show ?case by (cases s) (simp_all add: leading_dots_def)
qed

lemma spaced_run_dropWhile: "spaced_run (dropWhile isspace s) = spaced_run s"
  by (induction s) (auto simp add: printable_dot)

lemma spaced_run_zero:
  "\<not> starts_with [dot] s \<Longrightarrow> dropWhile isspace s = s \<Longrightarrow> spaced_run s = 0"
proof (cases s)
  case Nil
  then show ?thesis by simp
next
  case (Cons c t)
  assume a: "\<not> starts_with [dot] s" and b: "dropWhile isspace s = s"
  have "length (dropWhile isspace t) \<le> length t" by (rule length_dropWhile_le)
  with b Cons have "\<not> isspace c" by (auto split: if_splits)
  with a Cons show ?thesis by simp
qed

lemma dropWhile_dropWhile: "dropWhile P (dropWhile P s) = dropWhile P s"
  by (induction s) simp_all

lemma spaced_run_after_dot:
  "spaced_pair_free (dot # s) \<Longrightarrow> spaced_run s = leading_dots s"
proof (induction s)
  case Nil
  then show ?case by (simp add: leading_dots_def)
next
  case (Cons c s)
  show ?case
  proof (cases "c = dot")
    case True
    with Cons show ?thesis by (simp add: leading_dots_def)
  next
    case nd: False
    show ?thesis
    proof (cases "isspace c")
      case True
      have "length (dropWhile isspace s) \<le> length s" by (rule length_dropWhile_le)
      then have "dropWhile isspace s \<noteq> c # s" by auto
      with Cons.prems True have "\<not> starts_with [dot] (dropWhile isspace s)" by simp
      then have "spaced_run (dropWhile isspace s) = 0"
        by (rule spaced_run_zero) (rule dropWhile_dropWhile)
      then have "spaced_run s = 0" by (simp add: spaced_run_dropWhile)
      with True nd show ?thesis by (simp add: leading_dots_def)
    next
      case False
      with nd show ?thesis by (simp add: leading_dots_def)
    qed
  qed
qed

lemma dot_runs_le_head: "dot_runs_le n s \<Longrightarrow> spaced_run s \<le> n"
  by (cases s) simp_all

lemma dot_runs_le_free:
  "spaced_pair_free s \<Longrightarrow> \<not> contains (replicate 4 dot) s \<Longrightarrow> dot_runs_le 3 s"
proof (induction s)
  case Nil
  then show ?case by simp
next
  case (Cons c s)
  then have ih: "dot_runs_le 3 s" by simp
  have "spaced_run (c # s) \<le> 3"
  proof (cases "c = dot")
    case True
    with Cons.prems(1) have "spaced_run s = leading_dots s" by (simp add: spaced_run_after_dot)
    with True have "spaced_run (c # s) = leading_dots (c # s)" by (simp add: leading_dots_def)
    moreover from Cons.prems(2) have "\<not> starts_with (replicate 4 dot) (c # s)" by simp
    then have "\<not> 4 \<le> leading_dots (c # s)"
      using starts_with_dots [of 4 "c # s"] by blast
    ultimately show ?thesis by (simp del: spaced_run.simps)
  next
    case False
    with dot_runs_le_head [OF ih] show ?thesis by simp
  qed
  with ih show ?case by simp
qed

lemma spaced_run_close_up: "spaced_run (close_up s) = spaced_run s"
  by (induction s) (auto simp add: printable_dot)

lemma dot_runs_le_close_up: "dot_runs_le n s \<Longrightarrow> dot_runs_le n (close_up s)"
proof (induction s)
  case Nil
  then show ?case by simp
next
  case (Cons c s)
  then have ih: "dot_runs_le n (close_up s)" by simp
  show ?case
  proof (cases "isspace c \<and> starts_with (u ''...'') (dropWhile isspace s)")
    case True
    with ih show ?thesis by simp
  next
    case False
    then have e: "close_up (c # s) = c # close_up s" by auto
    have "spaced_run (c # close_up s) = spaced_run (c # s)"
      using spaced_run_close_up [of "c # s"] by (simp only: e)
    moreover from Cons.prems have "spaced_run (c # s) \<le> n" by (simp del: spaced_run.simps)
    ultimately have "spaced_run (c # close_up s) \<le> n" by (simp only:)
    with ih show ?thesis unfolding e by (simp del: spaced_run.simps)
  qed
qed

lemma spaced_run_append: "spaced_run a \<le> spaced_run (a @ b)"
  by (induction a) simp_all

lemma dot_runs_le_append: "dot_runs_le n (a @ b) \<Longrightarrow> dot_runs_le n a \<and> dot_runs_le n b"
proof (induction a)
  case Nil
  then show ?case by simp
next
  case (Cons c a)
  have "spaced_run (c # a) \<le> spaced_run ((c # a) @ b)" by (rule spaced_run_append)
  with Cons show ?case by simp
qed

lemma dot_runs_le_strip: "dot_runs_le n s \<Longrightarrow> dot_runs_le n (strip s)"
proof -
  assume a: "dot_runs_le n s"
  define t where "t = dropWhile isspace s"
  have "s = takeWhile isspace s @ t" by (simp add: t_def)
  with a have t: "dot_runs_le n t" using dot_runs_le_append [of n "takeWhile isspace s" t] by simp
  have "rev (dropWhile isspace (rev t)) @ rev (takeWhile isspace (rev t)) =
        rev (takeWhile isspace (rev t) @ dropWhile isspace (rev t))"
    by (simp only: rev_append)
  also have "\<dots> = rev (rev t)" by (simp only: takeWhile_dropWhile_id)
  finally have "t = rstrip t @ rev (takeWhile isspace (rev t))" by (simp add: rstrip_def)
  with t have "dot_runs_le n (rstrip t)"
    using dot_runs_le_append [of n "rstrip t" "rev (takeWhile isspace (rev t))"] by simp
  then show ?thesis by (simp add: strip_rstrip t_def)
qed

lemma leading_dots_spaced_run: "leading_dots s \<le> spaced_run s"
  by (induction s) (simp_all add: leading_dots_def)

lemma dot_runs_le_contains: "dot_runs_le 3 s \<Longrightarrow> \<not> contains (u ''....'') s"
proof (induction s)
  case Nil
  then show ?case by (simp add: u_def)
next
  case (Cons c s)
  have d: "u ''....'' = replicate 4 dot" by (simp add: u_def dot_def eval_nat_numeral)
  from Cons.prems have "spaced_run (c # s) \<le> 3" by (simp del: spaced_run.simps)
  with leading_dots_spaced_run [of "c # s"] have "\<not> 4 \<le> leading_dots (c # s)" by simp
  then have "\<not> starts_with (replicate 4 dot) (c # s)"
    using starts_with_dots [of 4 "c # s"] by blast
  moreover from Cons have "\<not> contains (replicate 4 dot) s" by (simp add: d)
  ultimately show ?case by (simp only: d contains.simps) simp
qed

subsection \<open>Dots stay apart when the runs are collapsed\<close>

lemma re_sub_dots_hd: "\<exists>z. re_sub m_dots (u ''...'') (c # s) = c # z"
proof (cases "3 \<le> leading_dots (c # s)")
  case True
  then have "c = dot" by (auto simp add: leading_dots_def split: if_splits)
  with True show ?thesis by (simp add: re_sub_dots_Cons u_def dot_def del: re_sub.simps)
next
  case False
  then show ?thesis by (simp add: re_sub_dots_Cons del: re_sub.simps)
qed

lemma re_sub_dots_starts:
  "starts_with [d] (re_sub m_dots (u ''...'') s) \<longleftrightarrow> starts_with [d] s"
proof (cases s)
  case Nil
  then show ?thesis by simp
next
  case (Cons c t)
  from re_sub_dots_hd [of c t] obtain z where "re_sub m_dots (u ''...'') (c # t) = c # z" ..
  then show ?thesis by (simp add: Cons del: re_sub.simps)
qed

lemma re_sub_dots_dropWhile:
  "dropWhile isspace (re_sub m_dots (u ''...'') s) =
   re_sub m_dots (u ''...'') (dropWhile isspace s)"
proof (induction s)
  case Nil
  then show ?case by simp
next
  case (Cons c s)
  show ?case
  proof (cases "isspace c")
    case True
    then have "c \<noteq> dot" using printable_dot by auto
    then have "re_sub m_dots (u ''...'') (c # s) = c # re_sub m_dots (u ''...'') s"
      by (simp add: re_sub_dots_Cons leading_dots_def del: re_sub.simps)
    with True Cons show ?thesis by (simp del: re_sub.simps)
  next
    case False
    from re_sub_dots_hd [of c s] obtain z where "re_sub m_dots (u ''...'') (c # s) = c # z" ..
    with False show ?thesis by (simp del: re_sub.simps)
  qed
qed

lemma re_sub_dots_length_eq:
  "dropWhile isspace (re_sub m_dots (u ''...'') s) = re_sub m_dots (u ''...'') s \<longleftrightarrow>
   dropWhile isspace s = s"
proof (cases s)
  case Nil
  then show ?thesis by simp
next
  case (Cons c t)
  from re_sub_dots_hd [of c t] obtain z where z: "re_sub m_dots (u ''...'') (c # t) = c # z" ..
  have 1: "length (dropWhile isspace z) \<le> length z" by (rule length_dropWhile_le)
  have 2: "length (dropWhile isspace t) \<le> length t" by (rule length_dropWhile_le)
  have "dropWhile isspace (c # z) = c # z \<longleftrightarrow> \<not> isspace c" using 1 by auto
  moreover have "dropWhile isspace (c # t) = c # t \<longleftrightarrow> \<not> isspace c" using 2 by auto
  ultimately show ?thesis by (simp add: Cons z del: re_sub.simps)
qed

lemma spaced_pair_free_dots:
  "spaced_pair_free s \<Longrightarrow> spaced_pair_free (re_sub m_dots (u ''...'') s)"
proof (induction s rule: length_induct)
  case (1 s)
  let ?f = "re_sub m_dots (u ''...'')"
  have gap: "\<And>x. \<not> (dropWhile isspace x \<noteq> x \<and> starts_with [dot] (dropWhile isspace x)) \<Longrightarrow>
      \<not> (dropWhile isspace (?f x) \<noteq> ?f x \<and> starts_with [dot] (dropWhile isspace (?f x)))"
  proof -
    fix x
    assume a: "\<not> (dropWhile isspace x \<noteq> x \<and> starts_with [dot] (dropWhile isspace x))"
    have "dropWhile isspace (?f x) = ?f x \<longleftrightarrow> dropWhile isspace x = x"
      by (rule re_sub_dots_length_eq)
    moreover have "starts_with [dot] (dropWhile isspace (?f x)) \<longleftrightarrow>
        starts_with [dot] (dropWhile isspace x)"
      by (simp only: re_sub_dots_dropWhile re_sub_dots_starts)
    ultimately show "\<not> (dropWhile isspace (?f x) \<noteq> ?f x \<and>
        starts_with [dot] (dropWhile isspace (?f x)))"
      using a by blast
  qed
  show ?case
  proof (cases s)
    case Nil
    then show ?thesis by simp
  next
    case (Cons c t)
    show ?thesis
    proof (cases "3 \<le> leading_dots (c # t)")
      case True
      define rest where "rest = dropWhile (\<lambda>x. x = dot) t"
      have c: "c = dot" using True by (auto simp add: leading_dots_def split: if_splits)
      have "length rest \<le> length t" unfolding rest_def by (rule length_dropWhile_le)
      then have len: "length rest < length s" by (simp add: Cons)
      have split: "s = (c # takeWhile (\<lambda>x. x = dot) t) @ rest" by (simp add: Cons rest_def)
      have tk: "takeWhile (\<lambda>x. x = dot) t \<noteq> []"
        using True c by (auto simp add: leading_dots_def)
      then obtain pre where pre: "c # takeWhile (\<lambda>x. x = dot) t = pre @ [dot]"
      proof -
        have "last (takeWhile (\<lambda>x. x = dot) t) \<in> set (takeWhile (\<lambda>x. x = dot) t)"
          using tk by (rule last_in_set)
        then have "last (takeWhile (\<lambda>x. x = dot) t) = dot" by (auto dest: set_takeWhileD)
        with tk have "c # takeWhile (\<lambda>x. x = dot) t =
            (c # butlast (takeWhile (\<lambda>x. x = dot) t)) @ [dot]"
          using append_butlast_last_id [of "takeWhile (\<lambda>x. x = dot) t"] by simp
        with that show ?thesis by blast
      qed
      from 1(2) have "spaced_pair_free (pre @ dot # rest)" using split pre by simp
      then have fr: "spaced_pair_free (dot # rest)" by (rule spaced_pair_free_append)
      then have "spaced_pair_free rest" by simp
      with 1(1) len have ih: "spaced_pair_free (?f rest)" by blast
      from fr have "\<not> (dropWhile isspace rest \<noteq> rest \<and> starts_with [dot] (dropWhile isspace rest))"
        by simp
      then have g: "\<not> (dropWhile isspace (?f rest) \<noteq> ?f rest \<and>
          starts_with [dot] (dropWhile isspace (?f rest)))" by (rule gap)
      have "?f (c # t) = dot # dot # dot # ?f rest"
        using True by (simp add: re_sub_dots_Cons rest_def u_def dot_def del: re_sub.simps)
      moreover have "spaced_pair_free (dot # dot # dot # ?f rest)"
        using ih g by (simp add: printable_dot del: re_sub.simps)
      ultimately show ?thesis by (simp add: Cons del: re_sub.simps)
    next
      case False
      have "length t < length s" by (simp add: Cons)
      moreover from 1(2) have "spaced_pair_free t" by (simp add: Cons)
      ultimately have ih: "spaced_pair_free (?f t)" using 1(1) by blast
      from 1(2) have "\<not> (c = dot \<and> dropWhile isspace t \<noteq> t \<and>
          starts_with [dot] (dropWhile isspace t))" by (simp add: Cons)
      then have "\<not> (c = dot \<and> dropWhile isspace (?f t) \<noteq> ?f t \<and>
          starts_with [dot] (dropWhile isspace (?f t)))"
        using gap [of t] by blast
      moreover have "?f (c # t) = c # ?f t"
        using False by (simp add: re_sub_dots_Cons del: re_sub.simps)
      ultimately show ?thesis using ih by (simp add: Cons del: re_sub.simps)
    qed
  qed
qed

subsection \<open>The last pass and the trimming delete white space only\<close>

lemma filter_dropWhile_space:
  "filter (\<lambda>c. \<not> isspace c) (dropWhile isspace s) = filter (\<lambda>c. \<not> isspace c) s"
  by (induction s) simp_all

lemma m_spaced_dot_filter:
  "m_spaced_dot s = Some t \<Longrightarrow>
   filter (\<lambda>c. \<not> isspace c) s = dot # filter (\<lambda>c. \<not> isspace c) t"
proof -
  assume "m_spaced_dot s = Some t"
  then have "dropWhile isspace s = dot # t" by (simp add: m_spaced_dot_Some)
  then have "filter (\<lambda>c. \<not> isspace c) (dropWhile isspace s) =
             filter (\<lambda>c. \<not> isspace c) (dot # t)" by (rule arg_cong)
  then show ?thesis by (simp add: filter_dropWhile_space printable_dot)
qed

lemma m_spaced_dots_filter:
  "m_spaced_dots s = Some rest \<Longrightarrow>
   filter (\<lambda>c. \<not> isspace c) s = dot # dot # dot # filter (\<lambda>c. \<not> isspace c) rest"
  by (auto simp add: m_spaced_dots_def split: option.splits dest!: m_spaced_dot_filter)

lemma re_sub_spaced_dots_filter:
  "filter (\<lambda>c. \<not> isspace c) (re_sub m_spaced_dots (u ''...'') s) =
   filter (\<lambda>c. \<not> isspace c) s"
proof (induction s rule: length_induct)
  case (1 s)
  show ?case
  proof (cases s)
    case Nil
    then show ?thesis by simp
  next
    case (Cons c t)
    have iht: "filter (\<lambda>c. \<not> isspace c) (re_sub m_spaced_dots (u ''...'') t) =
               filter (\<lambda>c. \<not> isspace c) t"
      using 1 by (simp add: Cons)
    show ?thesis
    proof (cases "m_spaced_dots (c # t)")
      case None
      with iht show ?thesis by (simp add: Cons)
    next
      case (Some rest)
      show ?thesis
      proof (cases "length rest \<le> length t")
        case True
        then have "length rest < length s" by (simp add: Cons)
        with 1 have "filter (\<lambda>c. \<not> isspace c) (re_sub m_spaced_dots (u ''...'') rest) =
               filter (\<lambda>c. \<not> isspace c) rest" by blast
        moreover have "filter (\<lambda>c. \<not> isspace c) (u ''...'') = [dot, dot, dot]"
          by (simp add: u_def dot_def isspace_def)
        moreover note m_spaced_dots_filter [OF Some]
        ultimately show ?thesis using Some True by (simp add: Cons)
      next
        case False
        with Some iht show ?thesis by (simp add: Cons)
      qed
    qed
  qed
qed

lemma filter_strip_space:
  "filter (\<lambda>c. \<not> isspace c) (strip s) = filter (\<lambda>c. \<not> isspace c) s"
proof -
  have "filter (\<lambda>c. \<not> isspace c) (rev (dropWhile isspace (rev (dropWhile isspace s)))) =
        rev (filter (\<lambda>c. \<not> isspace c) (dropWhile isspace (rev (dropWhile isspace s))))"
    by (rule rev_filter [symmetric])
  also have "\<dots> = rev (filter (\<lambda>c. \<not> isspace c) (rev (dropWhile isspace s)))"
    by (simp only: filter_dropWhile_space)
  also have "\<dots> = filter (\<lambda>c. \<not> isspace c) (dropWhile isspace s)"
    by (simp add: rev_filter)
  finally show ?thesis by (simp add: strip_def filter_dropWhile_space)
qed

lemma spaced_run_filter: "spaced_run (filter (\<lambda>c. \<not> isspace c) s) = spaced_run s"
  by (induction s) (auto simp add: printable_dot)

lemma dot_runs_le_filter:
  "dot_runs_le n (filter (\<lambda>c. \<not> isspace c) s) \<longleftrightarrow> dot_runs_le n s"
proof (induction s)
  case Nil
  then show ?case by simp
next
  case (Cons c s)
  show ?case
  proof (cases "isspace c")
    case True
    then have "c \<noteq> dot" using printable_dot by auto
    with True have "spaced_run (c # s) = spaced_run s" by simp
    moreover have "dot_runs_le n s \<Longrightarrow> spaced_run s \<le> n" by (rule dot_runs_le_head)
    ultimately have "dot_runs_le n (c # s) \<longleftrightarrow> dot_runs_le n s"
      by (auto simp del: spaced_run.simps)
    with True Cons show ?thesis by (simp del: spaced_run.simps dot_runs_le.simps)
  next
    case False
    have "spaced_run (filter (\<lambda>c. \<not> isspace c) (c # s)) = spaced_run (c # s)"
      by (rule spaced_run_filter)
    with False have "spaced_run (c # filter (\<lambda>c. \<not> isspace c) s) = spaced_run (c # s)"
      by (simp del: spaced_run.simps)
    with False Cons show ?thesis by (simp del: spaced_run.simps)
  qed
qed

lemma dot_runs_le_last_passes:
  "dot_runs_le n (strip (re_sub m_spaced_dots (u ''...'') s)) \<longleftrightarrow> dot_runs_le n s"
proof -
  have "filter (\<lambda>c. \<not> isspace c) (strip (re_sub m_spaced_dots (u ''...'') s)) =
        filter (\<lambda>c. \<not> isspace c) s"
    by (simp only: filter_strip_space re_sub_spaced_dots_filter)
  then have "dot_runs_le n (filter (\<lambda>c. \<not> isspace c) (strip (re_sub m_spaced_dots (u ''...'') s)))
        \<longleftrightarrow> dot_runs_le n (filter (\<lambda>c. \<not> isspace c) s)"
    by (simp only:)
  then show ?thesis by (simp only: dot_runs_le_filter)
qed

subsection \<open>The characters of the result\<close>

lemma re_sub_set:
  assumes "\<And>t rest. m t = Some rest \<Longrightarrow> set rest \<subseteq> set t"
  shows "set (re_sub m r s) \<subseteq> set s \<union> set r"
proof (induction s rule: length_induct)
  case (1 s)
  show ?case
  proof (cases s)
    case Nil
    then show ?thesis by simp
  next
    case (Cons c t)
    have t: "set (re_sub m r t) \<subseteq> set t \<union> set r" using 1 Cons by simp
    show ?thesis
    proof (cases "m (c # t)")
      case None
      with t show ?thesis by (auto simp add: Cons)
    next
      case (Some rest)
      with assms have sub: "set rest \<subseteq> set (c # t)" by blast
      show ?thesis
      proof (cases "length rest \<le> length t")
        case True
        with 1 Cons have "set (re_sub m r rest) \<subseteq> set rest \<union> set r" by simp
        with sub Some True show ?thesis by (auto simp add: Cons)
      next
        case False
        with t Some show ?thesis by (auto simp add: Cons)
      qed
    qed
  qed
qed

lemma m_dots_set: "m_dots t = Some rest \<Longrightarrow> set rest \<subseteq> set t"
  by (auto simp add: m_dots_def split: if_splits dest: set_dropWhileD)

lemma m_spaced_dot_set: "m_spaced_dot t = Some rest \<Longrightarrow> set rest \<subseteq> set t"
proof -
  assume a: "m_spaced_dot t = Some rest"
  then obtain c where "dropWhile isspace t = c # rest"
    by (auto simp add: m_spaced_dot_def split: list.splits if_splits)
  then have "set rest \<subseteq> set (dropWhile isspace t)" by auto
  then show ?thesis by (auto dest: set_dropWhileD)
qed

lemma m_spaced_dots_set: "m_spaced_dots t = Some rest \<Longrightarrow> set rest \<subseteq> set t"
  by (auto simp add: m_spaced_dots_def split: option.splits dest!: m_spaced_dot_set)

lemma set_strip: "set (strip s) \<subseteq> set s"
proof
  fix x
  assume "x \<in> set (strip s)"
  then have "x \<in> set (dropWhile isspace (rev (dropWhile isspace s)))" by (simp add: strip_def)
  then have "x \<in> set (rev (dropWhile isspace s))" by (rule set_dropWhileD)
  then have "x \<in> set (dropWhile isspace s)" by simp
  then show "x \<in> set s" by (rule set_dropWhileD)
qed

lemma set_u_dots: "set (u ''...'') = {dot}"
  by (simp add: u_def dot_def)

lemma re_sub_spaces_plain:
  "c \<in> set (re_sub m_spaces (u '' '') s) \<Longrightarrow> isspace c \<Longrightarrow> c = 32"
proof (induction s rule: length_induct)
  case (1 s)
  show ?case
  proof (cases s)
    case Nil
    with 1(2) show ?thesis by simp
  next
    case (Cons d t)
    show ?thesis
    proof (cases "isspace d")
      case True
      define rest where "rest = dropWhile isspace t"
      have len: "length rest < length s"
        using length_dropWhile_le [of isspace t] by (simp add: rest_def Cons)
      have "re_sub m_spaces (u '' '') (d # t) = 32 # re_sub m_spaces (u '' '') rest"
        using True by (simp add: re_sub_spaces_Cons rest_def u_def del: re_sub.simps)
      with 1(2) have "c = 32 \<or> c \<in> set (re_sub m_spaces (u '' '') rest)"
        by (simp add: Cons del: re_sub.simps)
      then show ?thesis
      proof
        assume "c = 32"
        then show ?thesis .
      next
        assume "c \<in> set (re_sub m_spaces (u '' '') rest)"
        with 1(1) len 1(3) show ?thesis by blast
      qed
    next
      case False
      have len: "length t < length s" by (simp add: Cons)
      have "re_sub m_spaces (u '' '') (d # t) = d # re_sub m_spaces (u '' '') t"
        using False by (simp add: re_sub_spaces_Cons del: re_sub.simps)
      with 1(2) have "c = d \<or> c \<in> set (re_sub m_spaces (u '' '') t)"
        by (simp add: Cons del: re_sub.simps)
      then show ?thesis
      proof
        assume "c = d"
        with False 1(3) show ?thesis by simp
      next
        assume "c \<in> set (re_sub m_spaces (u '' '') t)"
        with 1(1) len 1(3) show ?thesis by blast
      qed
    qed
  qed
qed

lemma clean_text_chars:
  assumes "c \<in> set (clean_text s)"
  shows "printable c \<and> (isspace c \<longrightarrow> c = 32)"
proof -
  define t1 where "t1 = re_sub m_spaces (u '' '') (strip s)"
  define t2 where "t2 = re_sub m_unprintable [] t1"
  define t3 where "t3 = re_sub m_dots (u ''...'') t2"
  define t4 where "t4 = re_sub m_spaced_dots (u ''...'') t3"
  have ct: "clean_text s = strip t4"
    by (simp add: clean_text_def Let_def t1_def t2_def t3_def t4_def)
  have s2: "set t2 \<subseteq> {c \<in> set t1. printable c}" by (auto simp add: t2_def re_sub_unprintable)
  have s3: "set t3 \<subseteq> set t2 \<union> {dot}"
    unfolding t3_def using re_sub_set [where m = m_dots and s = t2 and r = "u ''...''"] m_dots_set
    by (auto simp add: set_u_dots)
  have s4: "set t4 \<subseteq> set t3 \<union> {dot}"
    unfolding t4_def using re_sub_set [where m = m_spaced_dots and s = t3 and r = "u ''...''"] m_spaced_dots_set
    by (auto simp add: set_u_dots)
  from assms have "c \<in> set t4" using set_strip [of t4] by (auto simp add: ct)
  with s2 s3 s4 have "c = dot \<or> (c \<in> set t1 \<and> printable c)" by auto
  then show ?thesis
    using printable_dot re_sub_spaces_plain [of c "strip s"] by (auto simp add: t1_def)
qed

lemma re_sub_dots_run:
  "leading_dots (re_sub m_dots (u ''...'') s) = min (leading_dots s) 3 \<and>
   \<not> contains (replicate 4 dot) (re_sub m_dots (u ''...'') s)"
proof (induction s rule: length_induct)
  case (1 s)
  show ?case
  proof (cases s)
    case Nil
    then show ?thesis by (simp add: leading_dots_def)
  next
    case (Cons c t)
    show ?thesis
    proof (cases "3 \<le> leading_dots (c # t)")
      case True
      define rest where "rest = dropWhile (\<lambda>x. x = dot) t"
      define out where "out = re_sub m_dots (u ''...'') rest"
      have "length rest < length s"
        using length_dropWhile_le [of "\<lambda>x. x = dot" t] by (simp add: rest_def Cons)
      with 1 have ih: "leading_dots out = min (leading_dots rest) 3"
        "\<not> contains (replicate 4 dot) out" by (auto simp add: out_def)
      have "leading_dots rest = 0"
        unfolding rest_def leading_dots_def
        using hd_dropWhile [of "\<lambda>x. x = dot" t] by (auto simp add: takeWhile_eq_Nil_iff)
      with ih have z: "leading_dots out = 0" by simp
      have "re_sub m_dots (u ''...'') (c # t) = u ''...'' @ out"
        using True by (simp add: re_sub_dots_Cons rest_def out_def del: re_sub.simps)
      then have r: "re_sub m_dots (u ''...'') (c # t) = dot # dot # dot # out"
        by (simp add: u_def dot_def del: re_sub.simps)
      from z have nd: "\<not> starts_with [dot] out" "\<not> starts_with [dot, dot] out"
        "\<not> starts_with [dot, dot, dot] out"
        using starts_with_dots [of 1 out] starts_with_dots [of 2 out] starts_with_dots [of 3 out]
        by (simp_all add: eval_nat_numeral)
      from z have l: "leading_dots (dot # dot # dot # out) = 3"
        by (simp add: leading_dots_def)
      have "\<not> contains (replicate 4 dot) (dot # dot # dot # out)"
        using nd ih(2) by (simp add: eval_nat_numeral)
      with l True show ?thesis by (simp add: Cons r del: re_sub.simps)
    next
      case False
      define out where "out = re_sub m_dots (u ''...'') t"
      have "length t < length s" by (simp add: Cons)
      with 1 have ih: "leading_dots out = min (leading_dots t) 3"
        "\<not> contains (replicate 4 dot) out" by (auto simp add: out_def)
      have r: "re_sub m_dots (u ''...'') (c # t) = c # out"
        using False by (simp add: re_sub_dots_Cons out_def del: re_sub.simps)
      have l: "leading_dots (c # out) = leading_dots (c # t)"
        using False ih(1) by (auto simp add: leading_dots_def)
      with False have "\<not> 4 \<le> leading_dots (c # out)" by simp
      then have "\<not> starts_with (replicate 4 dot) (c # out)"
        using starts_with_dots [of 4 "c # out"] by blast
      with ih(2) have "\<not> contains (replicate 4 dot) (c # out)"
        by simp
      with l False show ?thesis by (simp add: Cons r del: re_sub.simps)
    qed
  qed
qed

subsection \<open>The result of cleaning\<close>

lemma clean_text_passes:
  "clean_text s =
     strip (re_sub m_spaced_dots (u ''...'')
              (collapse_dots (filter printable (join_words (ws_words s)))))"
  by (simp add: clean_text_def Let_def re_sub_spaces_strip re_sub_unprintable
      re_sub_dots_collapse)

lemma clean_text_free:
  assumes "spaced_pair_free (filter printable (join_words (ws_words s)))"
  shows "clean_text s =
           strip (close_up (collapse_dots (filter printable (join_words (ws_words s)))))"
    and "dot_runs_le 3 (clean_text s)"
proof -
  define t2 where "t2 = filter printable (join_words (ws_words s))"
  define t3 where "t3 = collapse_dots t2"
  have t3: "t3 = re_sub m_dots (u ''...'') t2" by (simp add: t3_def re_sub_dots_collapse)
  from assms have "spaced_pair_free t2" by (simp add: t2_def)
  then have f3: "spaced_pair_free t3" unfolding t3 by (rule spaced_pair_free_dots)
  then have "re_sub m_spaced_dots (u ''...'') t3 = close_up t3"
    by (rule re_sub_spaced_dots_close_up)
  then have eq: "clean_text s = strip (close_up t3)"
    by (simp add: clean_text_passes t3_def t2_def)
  then show "clean_text s =
           strip (close_up (collapse_dots (filter printable (join_words (ws_words s)))))"
    by (simp add: t3_def t2_def)
  have "\<not> contains (replicate 4 dot) t3"
    unfolding t3 using re_sub_dots_run [of t2] by blast
  with f3 have "dot_runs_le 3 t3" by (rule dot_runs_le_free)
  then have "dot_runs_le 3 (close_up t3)" by (rule dot_runs_le_close_up)
  then have "dot_runs_le 3 (strip (close_up t3))" by (rule dot_runs_le_strip)
  with eq show "dot_runs_le 3 (clean_text s)" by simp
qed

text \<open>
  C7, as the code has it. \<open>clean_text\<close> joins the words of the string by single spaces,
  removes the characters that are neither printable ASCII nor between U+00A0 and
  U+FFFF, puts three dots for every run of three or more dots, replaces in one pass from
  the left each three dots with optional white space before each of them by three dots,
  and trims. The result is trimmed, all its characters are printable ASCII or between
  U+00A0 and U+FFFF, and its only white space is the plain space. The last pass does not
  look again at what it has written, so the result can have a run of more than three
  dots: it has one, the white space between dots being ignored, exactly when the string
  has one after the first three passes. When, after the first two passes, no two dots
  have only white space between them, there is none, and the last pass does no more
  than remove the white space before three dots.
\<close>

theorem clean_text_result:
  "clean_text s =
     strip (re_sub m_spaced_dots (u ''...'')
              (collapse_dots (filter printable (join_words (ws_words s))))) \<and>
   strip (clean_text s) = clean_text s \<and>
   (\<forall>c\<in>set (clean_text s). printable c \<and> (isspace c \<longrightarrow> c = 32)) \<and>
   (dot_runs_le 3 (clean_text s) \<longleftrightarrow>
      dot_runs_le 3 (collapse_dots (filter printable (join_words (ws_words s))))) \<and>
   (dot_runs_le 3 (clean_text s) \<longrightarrow> \<not> contains (u ''....'') (clean_text s)) \<and>
   (spaced_pair_free (filter printable (join_words (ws_words s))) \<longrightarrow>
      clean_text s =
        strip (close_up (collapse_dots (filter printable (join_words (ws_words s))))) \<and>
      dot_runs_le 3 (clean_text s))"
proof -
  have 1: "strip (clean_text s) = clean_text s"
    by (simp add: clean_text_def Let_def strip_idem)
  have 2: "\<forall>c\<in>set (clean_text s). printable c \<and> (isspace c \<longrightarrow> c = 32)"
    using clean_text_chars by blast
  have 3: "dot_runs_le 3 (clean_text s) \<longleftrightarrow>
      dot_runs_le 3 (collapse_dots (filter printable (join_words (ws_words s))))"
    by (simp only: clean_text_passes dot_runs_le_last_passes)
  have 4: "dot_runs_le 3 (clean_text s) \<longrightarrow> \<not> contains (u ''....'') (clean_text s)"
    using dot_runs_le_contains [of "clean_text s"] by blast
  have 5: "spaced_pair_free (filter printable (join_words (ws_words s))) \<longrightarrow>
      clean_text s =
        strip (close_up (collapse_dots (filter printable (join_words (ws_words s))))) \<and>
      dot_runs_le 3 (clean_text s)"
    using clean_text_free [of s] by blast
  from clean_text_passes [of s] 1 2 3 4 5 show ?thesis by blast
qed

lemma ws_words_eval:
  "ws_words [] = []"
  "isspace c \<Longrightarrow> ws_words (c # t) = ws_words t"
  "\<not> isspace c \<Longrightarrow>
   ws_words (c # t) =
     (c # takeWhile (\<lambda>x. \<not> isspace x) t) # ws_words (dropWhile (\<lambda>x. \<not> isspace x) t)"
  by (simp_all add: ws_words.simps [of "[]"] ws_words.simps [of "c # t"]
      ws_words.simps [of t])

lemma wait_words:
  "ws_words (u ''  Wait ......'' @ 9 # u '' what '') = [u ''Wait'', u ''......'', u ''what'']"
  by (simp add: ws_words_eval string_eval)

lemma wait_cleaned:
  "strip (close_up (collapse_dots (filter printable
     (join_words (ws_words (u ''  Wait ......'' @ 9 # u '' what '')))))) = u ''Wait... what''"
  by (simp add: wait_words) (simp add: collapse_dots_def string_eval)

lemma spaced_words:
  "ws_words (u ''a. .b'') = [u ''a.'', u ''.b'']"
  by (simp add: ws_words_eval string_eval)

lemma spaced_collapsed:
  "dot_runs_le 3 (collapse_dots (filter printable (join_words (ws_words (u ''a. .b'')))))"
  by (simp add: spaced_words) (simp add: collapse_dots_def string_eval)

theorem clean_text_result_witness:
  "ws_words (u ''  Wait ......'' @ 9 # u '' what '') = [u ''Wait'', u ''......'', u ''what''] \<and>
   spaced_pair_free
     (filter printable (join_words (ws_words (u ''  Wait ......'' @ 9 # u '' what '')))) \<and>
   clean_text (u ''  Wait ......'' @ 9 # u '' what '') = u ''Wait... what'' \<and>
   list_all (\<lambda>c. printable c \<and> (isspace c \<longrightarrow> c = 32))
     (clean_text (u ''  Wait ......'' @ 9 # u '' what '')) \<and>
   dot_runs_le 3 (clean_text (u ''  Wait ......'' @ 9 # u '' what '')) \<and>
   \<not> contains (u ''....'') (clean_text (u ''  Wait ......'' @ 9 # u '' what '')) \<and>
   dot_runs_le 3 (collapse_dots (filter printable (join_words (ws_words (u ''a. .b''))))) \<and>
   dot_runs_le 3 (clean_text (u ''a. .b''))"
proof -
  have h: "spaced_pair_free
     (filter printable (join_words (ws_words (u ''  Wait ......'' @ 9 # u '' what ''))))"
    by (simp add: wait_words) (simp add: string_eval)
  note t = clean_text_result [of "u ''  Wait ......'' @ 9 # u '' what ''"]
  from t h have "clean_text (u ''  Wait ......'' @ 9 # u '' what '') =
      strip (close_up (collapse_dots (filter printable
        (join_words (ws_words (u ''  Wait ......'' @ 9 # u '' what ''))))))"
    by blast
  then have c: "clean_text (u ''  Wait ......'' @ 9 # u '' what '') = u ''Wait... what''"
    by (simp only: wait_cleaned)
  from t have "\<forall>c\<in>set (clean_text (u ''  Wait ......'' @ 9 # u '' what '')).
      printable c \<and> (isspace c \<longrightarrow> c = 32)"
    by blast
  then have p: "list_all (\<lambda>c. printable c \<and> (isspace c \<longrightarrow> c = 32))
     (clean_text (u ''  Wait ......'' @ 9 # u '' what ''))"
    by (simp add: list_all_iff)
  from t h have d: "dot_runs_le 3 (clean_text (u ''  Wait ......'' @ 9 # u '' what ''))"
    by blast
  with t have n: "\<not> contains (u ''....'') (clean_text (u ''  Wait ......'' @ 9 # u '' what ''))"
    by blast
  from clean_text_result [of "u ''a. .b''"] spaced_collapsed
  have e: "dot_runs_le 3 (clean_text (u ''a. .b''))" by blast
  from wait_words h c p d n spaced_collapsed e show ?thesis by blast
qed

text \<open>
  From \<open>a.. ..\<close> the last pass makes three dots of \<open>.. .\<close> and leaves the dot behind
  them: the result has a run of four dots.
\<close>

theorem clean_text_counterexample:
  "clean_text (u ''a.. ..'') = u ''a....'' \<and> contains (u ''....'') (clean_text (u ''a.. ..'')) \<and>
   \<not> dot_runs_le 3 (clean_text (u ''a.. ..'')) \<and>
   \<not> spaced_pair_free (filter printable (join_words (ws_words (u ''a.. ..''))))"
proof -
  have 1: "clean_text (u ''a.. ..'') = u ''a....''"
    by (simp add: clean_text_eval string_eval)
  have 2: "ws_words (u ''a.. ..'') = [u ''a..'', u ''..'']"
    by (simp add: ws_words_eval string_eval)
  have 3: "\<not> spaced_pair_free (filter printable (join_words [u ''a..'', u ''..'']))"
    by (simp add: string_eval)
  from 1 2 3 show ?thesis by (simp add: u_def dot_def)
qed

text \<open>
  Removing a character can bring two spaces together, which stay: the run of white
  space is replaced before the character between the spaces is removed.
\<close>

lemma clean_text_double_space:
  "clean_text (97 # 32 # 1 # 32 # [98]) = 97 # 32 # 32 # [98]"
  by (simp add: clean_text_eval string_eval)

section \<open>Faults stay inside a page or a strategy\<close>

lemma analysable_iff:
  "analysable U avg sp \<longleftrightarrow>
     (\<exists>b. is_likely_heading U (ts_text sp) (ts_size sp) (ts_flags sp) avg = Inr b)"
  by (cases "ts_flags sp") (auto simp add: analysable_def is_likely_heading_def bold_flag_def Let_def)

lemma headings_loop_fst:
  "fst (headings_loop U avg n spans hs) =
     hs @ map (heading_item U avg n)
            (filter (likely_heading U avg) (takeWhile (analysable U avg) spans))"
proof (induction spans arbitrary: hs)
  case Nil
  then show ?case by simp
next
  case (Cons sp spans)
  show ?case
  proof (cases "is_likely_heading U (ts_text sp) (ts_size sp) (ts_flags sp) avg")
    case (Inl e)
    then have "\<not> analysable U avg sp" by (simp add: analysable_iff)
    with Inl show ?thesis by simp
  next
    case (Inr b)
    then have "analysable U avg sp" by (simp add: analysable_iff)
    with Inr Cons.IH show ?thesis
      by (cases b) (simp_all add: likely_heading_def heading_item_def)
  qed
qed

lemma headings_loop_snd:
  "snd (headings_loop U avg n spans hs) = None \<longleftrightarrow> list_all (analysable U avg) spans"
proof (induction spans arbitrary: hs)
  case Nil
  then show ?case by simp
next
  case (Cons sp spans)
  show ?case
  proof (cases "is_likely_heading U (ts_text sp) (ts_size sp) (ts_flags sp) avg")
    case (Inl e)
    then have "\<not> analysable U avg sp" by (simp add: analysable_iff)
    with Inl show ?thesis by simp
  next
    case (Inr b)
    then have "analysable U avg sp" by (simp add: analysable_iff)
    with Inr Cons.IH show ?thesis by (cases b) simp_all
  qed
qed

lemma find_headings_on_page_eq:
  "find_headings_on_page U page n =
     (case read_text_spans page of
        Inl e \<Rightarrow> []
      | Inr spans \<Rightarrow> headings_before_fault U n (sort_key ts_y spans))"
  by (cases page)
    (simp_all add: find_headings_on_page_def find_headings_run_def read_text_spans_def
      headings_before_fault_def headings_loop_fst Let_def split: sum.splits)

lemma content_loop_loads:
  "list_all loads pages \<Longrightarrow>
   content_loop U pages k outline =
     Inr (outline @
          concat (map (\<lambda>(page_num, loaded).
                         find_headings_on_page U (projr loaded) (int page_num + 1))
                      (enumerate k pages)))"
proof (induction pages arbitrary: k outline)
  case Nil
  then show ?case by simp
next
  case (Cons p pages)
  then show ?case by (cases p) (simp_all add: loads_def)
qed

lemma content_loop_fault:
  "\<not> list_all loads pages \<Longrightarrow> \<exists>e. content_loop U pages k outline = Inl e"
proof (induction pages arbitrary: k outline)
  case Nil
  then show ?case by simp
next
  case (Cons p pages)
  then show ?case by (cases p) (simp_all add: loads_def)
qed

lemma extract_from_content_loads:
  "list_all loads (doc_pages doc) \<Longrightarrow>
   extract_from_content U doc = refine_outline U (headings_of_pages U (doc_pages doc))"
  by (simp add: extract_from_content_def extract_from_content_try_def content_loop_loads
      headings_of_pages_def)

lemma extract_from_content_fault:
  assumes "\<not> list_all loads (doc_pages doc)"
  shows "extract_from_content U doc = []"
proof -
  from content_loop_fault [OF assms] obtain e where
    "content_loop U (doc_pages doc) 0 [] = Inl e" by blast
  then show ?thesis by (simp add: extract_from_content_def extract_from_content_try_def)
qed

lemma extract_title_chain:
  "extract_title U doc =
     first_title [extract_from_metadata doc, extract_from_outline U doc,
                  extract_from_first_page U doc, extract_by_font_size U doc]"
  by (simp add: extract_title_def Let_def)

lemma collect_text_spans_blank:
  "list_all (\<lambda>sp. strip (sp_text sp) = []) spans \<Longrightarrow> collect_text_spans spans = Inr []"
  by (induction spans) (simp_all add: Let_def)

lemma text_blocks_loop_blank:
  "list_all (\<lambda>sp. strip (sp_text sp) = []) spans \<Longrightarrow> text_blocks_loop spans = []"
  by (induction spans) (simp_all add: Let_def)

lemma no_usable_spans_headings:
  "no_usable_spans (Inr page) \<Longrightarrow> find_headings_on_page U page n = []"
  by (cases page)
    (simp_all add: no_usable_spans_def find_headings_on_page_def find_headings_run_def
      collect_text_spans_blank Let_def)

lemma no_usable_spans_blocks:
  "no_usable_spans (Inr page) \<Longrightarrow> get_text_blocks_with_formatting page = []"
  by (cases page)
    (simp_all add: no_usable_spans_def get_text_blocks_with_formatting_def text_blocks_loop_blank)

lemma content_loop_blank:
  "list_all no_usable_spans pages \<Longrightarrow>
   content_loop U pages k [] = Inr [] \<or> (\<exists>e. content_loop U pages k [] = Inl e)"
proof (induction pages arbitrary: k)
  case Nil
  then show ?case by simp
next
  case (Cons p pages)
  then show ?case by (cases p) (simp_all add: no_usable_spans_headings)
qed

lemma font_size_pages_blank:
  "list_all no_usable_spans pages \<Longrightarrow>
   font_size_pages U pages st = Inr st \<or> (\<exists>e. font_size_pages U pages st = Inl e)"
proof (induction pages arbitrary: st)
  case Nil
  then show ?case by simp
next
  case (Cons p pages)
  then show ?case by (cases p) (simp_all add: no_usable_spans_blocks)
qed

lemma no_signal_outline:
  assumes "no_native_outline doc" and "list_all no_usable_spans (doc_pages doc)"
  shows "extract_outline U doc = []"
proof -
  from assms(1) have "extract_from_bookmarks doc = []"
    by (simp add: no_native_outline_def extract_from_bookmarks_def extract_from_bookmarks_try_def
        split: sum.splits)
  moreover from content_loop_blank [OF assms(2), of U 0]
  have "extract_from_content U doc = []"
    by (auto simp add: extract_from_content_def extract_from_content_try_def refine_outline_def)
  ultimately show ?thesis by (simp add: extract_outline_def)
qed

lemma no_signal_title:
  assumes "no_metadata_title doc" and "no_native_outline doc"
    and "list_all no_usable_spans (doc_pages doc)"
  shows "extract_title U doc = []"
proof -
  from assms(1) have 1: "extract_from_metadata doc = None"
    by (cases "doc_metadata_title doc")
      (auto simp add: no_metadata_title_def extract_from_metadata_def
        extract_from_metadata_try_def Let_def)
  from assms(2) have 2: "extract_from_outline U doc = None"
    by (simp add: no_native_outline_def extract_from_outline_def extract_from_outline_try_def
        split: sum.splits)
  have 3: "extract_from_first_page U doc = None"
  proof (cases "page_count doc = 0")
    case True
    then show ?thesis
      by (simp add: extract_from_first_page_def extract_from_first_page_try_def)
  next
    case False
    then have "doc_pages doc \<noteq> []" by (simp add: page_count_def)
    then have "doc_pages doc ! 0 \<in> set (doc_pages doc)" by simp
    with assms(3) have n: "no_usable_spans (doc_pages doc ! 0)" by (simp add: list_all_iff)
    show ?thesis
    proof (cases "doc_pages doc ! 0")
      case (Inl e)
      with False show ?thesis
        by (simp add: extract_from_first_page_def extract_from_first_page_try_def)
    next
      case (Inr page)
      with n have "get_text_blocks_with_formatting page = []"
        by (simp add: no_usable_spans_blocks)
      with Inr False show ?thesis
        by (simp add: extract_from_first_page_def extract_from_first_page_try_def Let_def
            sort_reverse_def)
    qed
  qed
  have "list_all no_usable_spans (take (nat (min 3 (page_count doc))) (doc_pages doc))"
    using assms(3) by (auto simp add: list_all_iff dest: in_set_takeD)
  from font_size_pages_blank [OF this, of U "(0, [])"]
  have 4: "extract_by_font_size U doc = None"
    by (auto simp add: extract_by_font_size_def extract_by_font_size_try_def)
  from 1 2 3 4 show ?thesis by (simp add: extract_title_chain truthy_def)
qed

text \<open>
  C8. No fault leaves the extraction, which is a total function. A page whose spans
  cannot be read contributes no outline item; a page on which the analysis of a span
  fails contributes the headings found before that span, as \<open>_find_headings_on_page\<close>
  returns the list it has built so far. When every page can be loaded the content
  outline is made from the headings of all pages in their order, those of a faulty page
  being as said; when a page cannot be loaded the content outline is empty. A title
  strategy that fails yields nothing, and the title is the one of the other strategies
  in their order. A document without a metadata title, without a native outline and
  without a usable span yields the empty title and the empty outline.
\<close>

theorem faults_are_isolated:
  "find_headings_on_page U page n =
     (case read_text_spans page of
        Inl e \<Rightarrow> []
      | Inr spans \<Rightarrow> headings_before_fault U n (sort_key ts_y spans)) \<and>
   (list_all loads (doc_pages doc) \<longrightarrow>
      extract_from_content U doc = refine_outline U (headings_of_pages U (doc_pages doc))) \<and>
   (\<not> list_all loads (doc_pages doc') \<longrightarrow> extract_from_content U doc' = []) \<and>
   (extract_from_metadata_try doc1 = Inl e1 \<longrightarrow>
      extract_title U doc1 =
        first_title [extract_from_outline U doc1, extract_from_first_page U doc1,
                     extract_by_font_size U doc1]) \<and>
   (extract_from_outline_try U doc2 = Inl e2 \<longrightarrow>
      extract_title U doc2 =
        first_title [extract_from_metadata doc2, extract_from_first_page U doc2,
                     extract_by_font_size U doc2]) \<and>
   (extract_from_first_page_try U doc3 = Inl e3 \<longrightarrow>
      extract_title U doc3 =
        first_title [extract_from_metadata doc3, extract_from_outline U doc3,
                     extract_by_font_size U doc3]) \<and>
   (extract_by_font_size_try U doc4 = Inl e4 \<longrightarrow>
      extract_title U doc4 =
        first_title [extract_from_metadata doc4, extract_from_outline U doc4,
                     extract_from_first_page U doc4]) \<and>
   (no_metadata_title doc0 \<and> no_native_outline doc0 \<and>
    list_all no_usable_spans (doc_pages doc0) \<longrightarrow>
      process_pdf U doc0 = \<lparr>res_title = [], res_outline = []\<rparr>)"
proof -
  have a1: "find_headings_on_page U page n =
     (case read_text_spans page of
        Inl e \<Rightarrow> []
      | Inr spans \<Rightarrow> headings_before_fault U n (sort_key ts_y spans))"
    by (rule find_headings_on_page_eq)
  have a2: "list_all loads (doc_pages doc) \<longrightarrow>
      extract_from_content U doc = refine_outline U (headings_of_pages U (doc_pages doc))"
    by (simp add: extract_from_content_loads)
  have a3: "\<not> list_all loads (doc_pages doc') \<longrightarrow> extract_from_content U doc' = []"
    by (simp add: extract_from_content_fault)
  have b1: "extract_from_metadata_try doc1 = Inl e1 \<longrightarrow>
      extract_title U doc1 =
        first_title [extract_from_outline U doc1, extract_from_first_page U doc1,
                     extract_by_font_size U doc1]"
    by (simp add: extract_title_chain extract_from_metadata_def truthy_def)
  have b2: "extract_from_outline_try U doc2 = Inl e2 \<longrightarrow>
      extract_title U doc2 =
        first_title [extract_from_metadata doc2, extract_from_first_page U doc2,
                     extract_by_font_size U doc2]"
    by (simp add: extract_title_chain extract_from_outline_def truthy_def)
  have b3: "extract_from_first_page_try U doc3 = Inl e3 \<longrightarrow>
      extract_title U doc3 =
        first_title [extract_from_metadata doc3, extract_from_outline U doc3,
                     extract_by_font_size U doc3]"
    by (simp add: extract_title_chain extract_from_first_page_def truthy_def)
  have b4: "extract_by_font_size_try U doc4 = Inl e4 \<longrightarrow>
      extract_title U doc4 =
        first_title [extract_from_metadata doc4, extract_from_outline U doc4,
                     extract_from_first_page U doc4]"
    by (simp add: extract_title_chain extract_by_font_size_def truthy_def)
  have c: "no_metadata_title doc0 \<and> no_native_outline doc0 \<and>
    list_all no_usable_spans (doc_pages doc0) \<longrightarrow>
      process_pdf U doc0 = \<lparr>res_title = [], res_outline = []\<rparr>"
    using no_signal_title [of doc0 U] no_signal_outline [of doc0 U]
    by (simp add: process_pdf_def)
  from a1 a2 a3 b1 b2 b3 b4 c show ?thesis by blast
qed

lemmas title_eval = is_likely_title_def non_title_patterns_def title_indicators_def
  ignore_words_def

lemmas heading_eval = is_likely_heading_def heading_patterns_def level_indicators_def
  bold_flag_def bold_def

lemma strip_examples:
  "strip (u ''Quarterly Results'') = u ''Quarterly Results''"
  "strip (u ''1. Scope'') = u ''1. Scope''"
  "strip (u ''2. Method'') = u ''2. Method''"
  "strip (u ''Body'') = u ''Body''"
  by (simp_all add: string_eval)

lemma clean_examples:
  "clean_text (u ''Quarterly Results'') = u ''Quarterly Results''"
  "clean_text (u ''1. Scope'') = u ''1. Scope''"
  "clean_text (u ''2. Method'') = u ''2. Method''"
  by (simp_all add: clean_text_eval string_eval)

lemma likely_quarterly: "is_likely_title ascii_runtime (u ''Quarterly Results'')"
  by (simp add: title_eval rx_eval string_eval)

lemma likely_scope: "is_likely_title ascii_runtime (u ''1. Scope'')"
  by (simp add: title_eval rx_eval string_eval)

lemma no_ignore_word_quarterly:
  "\<not> list_ex (\<lambda>word. contains (py_lower ascii_runtime word)
                               (py_lower ascii_runtime (u ''Quarterly Results''))) ignore_words"
  by (simp add: ignore_words_def string_eval)

lemma no_ignore_word_scope:
  "\<not> list_ex (\<lambda>word. contains (py_lower ascii_runtime word)
                               (py_lower ascii_runtime (u ''1. Scope''))) ignore_words"
  by (simp add: ignore_words_def string_eval)

lemma average_examples:
  "calculate_average_font_size ascii_runtime
     [\<lparr>ts_text = a, ts_size = 12, ts_flags = f, ts_y = y\<rparr>] = 12"
  "calculate_average_font_size ascii_runtime
     [\<lparr>ts_text = a, ts_size = 12, ts_flags = f, ts_y = y\<rparr>,
      \<lparr>ts_text = a', ts_size = 12, ts_flags = f', ts_y = y'\<rparr>] = 12"
  by (simp_all add: calculate_average_font_size_def ascii_runtime_def ieee_eval)

lemma not_larger: "\<not> 12 > py_mul ascii_runtime 12 float_1_2"
  by (simp add: ascii_runtime_def float_1_2_def ieee_eval)

lemma heading_examples:
  "is_likely_heading ascii_runtime (u ''1. Scope'') 12 (Some 0) 12 = Inr True"
  "is_likely_heading ascii_runtime (u ''2. Method'') 12 (Some 0) 12 = Inr True"
  "is_likely_heading ascii_runtime (u ''Body'') 12 None 12 = Inl TypeError"
  using not_larger by (simp_all add: heading_eval rx_eval length_u) (simp_all add: string_eval)

lemma level_examples:
  "detect_heading_level ascii_runtime (u ''1. Scope'') 12 (Some 0) 12 = u ''h1''"
  "detect_heading_level ascii_runtime (u ''2. Method'') 12 (Some 0) 12 = u ''h1''"
  by (simp_all add: classifier_eval rx_eval string_eval)

lemma heading_headings_of_pages:
  "find_headings_on_page ascii_runtime (heading_page (u ''1. Scope'')) n =
     [\<lparr>it_level = u ''h1'', it_text = u ''1. Scope'', it_page = n\<rparr>]"
  "find_headings_on_page ascii_runtime (heading_page (u ''2. Method'')) n =
     [\<lparr>it_level = u ''h1'', it_text = u ''2. Method'', it_page = n\<rparr>]"
  by (simp_all add: find_headings_on_page_def find_headings_run_def heading_page_def
      strip_examples u_Nil_iff index1_def average_examples heading_examples level_examples
      clean_examples Let_def)

lemma faulty_page_spans: "read_text_spans faulty_page = Inl IndexError"
  by (simp add: read_text_spans_def faulty_page_def strip_examples u_Nil_iff index1_def Let_def)

lemma faulty_page_blocks:
  "get_text_blocks_with_formatting faulty_page =
     [\<lparr>tb_text = u ''Quarterly Results'', tb_size = 18, tb_flags = Some 0, tb_bbox = [72]\<rparr>]"
  by (simp add: get_text_blocks_with_formatting_def faulty_page_def strip_examples u_Nil_iff
      Let_def)

lemma heading_page_blocks:
  "get_text_blocks_with_formatting (heading_page (u ''1. Scope'')) =
     [\<lparr>tb_text = u ''1. Scope'', tb_size = 12, tb_flags = Some 0, tb_bbox = []\<rparr>]"
  by (simp add: get_text_blocks_with_formatting_def heading_page_def strip_examples u_Nil_iff
      Let_def)

lemma faulty_doc_first_page:
  "extract_from_first_page_try ascii_runtime faulty_doc = Inl IndexError"
  by (simp add: extract_from_first_page_try_def faulty_doc_def page_count_def faulty_page_blocks
      strip_examples likely_quarterly no_ignore_word_quarterly length_u index1_def Let_def)

lemma faulty_doc_font_size:
  "extract_by_font_size ascii_runtime faulty_doc = Some (u ''Quarterly Results'')"
  by (simp add: extract_by_font_size_def extract_by_font_size_try_def faulty_doc_def
      page_count_def faulty_page_blocks strip_examples likely_quarterly clean_examples length_u
      Let_def)

lemma load_fault_doc_first_page:
  "extract_from_first_page_try ascii_runtime load_fault_doc = Inl IndexError"
  by (simp add: extract_from_first_page_try_def load_fault_doc_def page_count_def
      heading_page_blocks strip_examples likely_scope no_ignore_word_scope length_u index1_def
      Let_def)

lemma load_fault_doc_font_size:
  "extract_by_font_size_try ascii_runtime load_fault_doc = Inl RuntimeError"
  by (simp add: extract_by_font_size_try_def load_fault_doc_def page_count_def)

lemma refine_two_headings:
  "refine_outline ascii_runtime
     [\<lparr>it_level = u ''h1'', it_text = u ''1. Scope'', it_page = 1\<rparr>,
      \<lparr>it_level = u ''h1'', it_text = u ''2. Method'', it_page = 3\<rparr>] =
     [\<lparr>it_level = u ''h1'', it_text = u ''1. Scope'', it_page = 1\<rparr>,
      \<lparr>it_level = u ''h1'', it_text = u ''2. Method'', it_page = 3\<rparr>]"
  by (simp add: refine_outline_def fix_hierarchy_def level_map_def reverse_map_def string_eval
      Let_def)

theorem faults_are_isolated_witness:
  "read_text_spans faulty_page = Inl IndexError \<and>
   find_headings_on_page ascii_runtime faulty_page 2 = [] \<and>
   list_all loads (doc_pages three_page_doc) \<and>
   extract_from_content ascii_runtime three_page_doc =
     [\<lparr>it_level = u ''h1'', it_text = u ''1. Scope'', it_page = 1\<rparr>,
      \<lparr>it_level = u ''h1'', it_text = u ''2. Method'', it_page = 3\<rparr>] \<and>
   \<not> list_all loads (doc_pages load_fault_doc) \<and>
   extract_from_content ascii_runtime load_fault_doc = [] \<and>
   extract_from_metadata_try faulty_doc = Inl AttributeError \<and>
   extract_from_outline_try ascii_runtime faulty_doc = Inl RuntimeError \<and>
   extract_from_first_page_try ascii_runtime faulty_doc = Inl IndexError \<and>
   extract_title ascii_runtime faulty_doc = u ''Quarterly Results'' \<and>
   extract_by_font_size_try ascii_runtime load_fault_doc = Inl RuntimeError \<and>
   extract_title ascii_runtime load_fault_doc = [] \<and>
   no_metadata_title empty_doc \<and> no_native_outline empty_doc \<and>
   list_all no_usable_spans (doc_pages empty_doc) \<and>
   process_pdf ascii_runtime empty_doc = \<lparr>res_title = [], res_outline = []\<rparr>"
proof -
  note t = faults_are_isolated [of ascii_runtime faulty_page 2 three_page_doc load_fault_doc
      faulty_doc AttributeError faulty_doc RuntimeError faulty_doc IndexError load_fault_doc
      RuntimeError empty_doc]
  have h1: "read_text_spans faulty_page = Inl IndexError"
    by (rule faulty_page_spans)
  from t h1 have c1: "find_headings_on_page ascii_runtime faulty_page 2 = []"
    by simp
  have h2: "list_all loads (doc_pages three_page_doc)"
    by (simp add: three_page_doc_def loads_def)
  from t h2 have "extract_from_content ascii_runtime three_page_doc =
      refine_outline ascii_runtime (headings_of_pages ascii_runtime (doc_pages three_page_doc))"
    by blast
  then have c2: "extract_from_content ascii_runtime three_page_doc =
     [\<lparr>it_level = u ''h1'', it_text = u ''1. Scope'', it_page = 1\<rparr>,
      \<lparr>it_level = u ''h1'', it_text = u ''2. Method'', it_page = 3\<rparr>]"
    by (simp add: three_page_doc_def headings_of_pages_def enumerate_eq_zip heading_headings_of_pages c1
        refine_two_headings)
  have h3: "\<not> list_all loads (doc_pages load_fault_doc)"
    by (simp add: load_fault_doc_def loads_def)
  from t h3 have c3: "extract_from_content ascii_runtime load_fault_doc = []"
    by blast
  have h4: "extract_from_metadata_try faulty_doc = Inl AttributeError"
    by (simp add: extract_from_metadata_try_def faulty_doc_def)
  have h5: "extract_from_outline_try ascii_runtime faulty_doc = Inl RuntimeError"
    by (simp add: extract_from_outline_try_def faulty_doc_def)
  have h6: "extract_from_first_page_try ascii_runtime faulty_doc = Inl IndexError"
    by (rule faulty_doc_first_page)
  from t h4 have "extract_title ascii_runtime faulty_doc =
        first_title [extract_from_outline ascii_runtime faulty_doc,
                     extract_from_first_page ascii_runtime faulty_doc,
                     extract_by_font_size ascii_runtime faulty_doc]"
    by blast
  then have c4: "extract_title ascii_runtime faulty_doc = u ''Quarterly Results''"
    using h5 h6
    by (simp add: extract_from_outline_def extract_from_first_page_def faulty_doc_font_size
        truthy_def u_Nil_iff)
  have h7: "extract_by_font_size_try ascii_runtime load_fault_doc = Inl RuntimeError"
    by (rule load_fault_doc_font_size)
  from t h7 have "extract_title ascii_runtime load_fault_doc =
        first_title [extract_from_metadata load_fault_doc,
                     extract_from_outline ascii_runtime load_fault_doc,
                     extract_from_first_page ascii_runtime load_fault_doc]"
    by blast
  then have c5: "extract_title ascii_runtime load_fault_doc = []"
    using load_fault_doc_first_page
    by (simp add: extract_from_first_page_def extract_from_metadata_def
        extract_from_metadata_try_def extract_from_outline_def extract_from_outline_try_def
        load_fault_doc_def truthy_def)
  have h8: "no_metadata_title empty_doc" "no_native_outline empty_doc"
    "list_all no_usable_spans (doc_pages empty_doc)"
    by (simp_all add: empty_doc_def no_metadata_title_def no_native_outline_def
        no_usable_spans_def strip_def)
  from t h8 have c6: "process_pdf ascii_runtime empty_doc = \<lparr>res_title = [], res_outline = []\<rparr>"
    by blast
  from h1 c1 h2 c2 h3 c3 h4 h5 h6 c4 h7 c5 h8 c6 show ?thesis by blast
qed

text \<open>
  On \<open>partial_page\<close> the analysis fails at the second span with \<open>TypeError\<close>, and the page
  contributes the heading found before it. In \<open>load_fault_doc\<close> the first page has a
  heading and the second cannot be loaded: the content outline is empty.
\<close>

theorem faults_are_isolated_counterexample:
  "snd (find_headings_run ascii_runtime partial_page 1) = Some TypeError \<and>
   find_headings_on_page ascii_runtime partial_page 1 =
     [\<lparr>it_level = u ''h1'', it_text = u ''1. Scope'', it_page = 1\<rparr>] \<and>
   find_headings_on_page ascii_runtime (heading_page (u ''1. Scope'')) 1 =
     [\<lparr>it_level = u ''h1'', it_text = u ''1. Scope'', it_page = 1\<rparr>] \<and>
   extract_from_content ascii_runtime load_fault_doc = []"
proof -
  have r: "find_headings_run ascii_runtime partial_page 1 =
     ([\<lparr>it_level = u ''h1'', it_text = u ''1. Scope'', it_page = 1\<rparr>], Some TypeError)"
    by (simp add: find_headings_run_def partial_page_def strip_examples u_Nil_iff index1_def
        average_examples heading_examples level_examples clean_examples Let_def)
  have l: "extract_from_content ascii_runtime load_fault_doc = []"
    by (simp add: extract_from_content_def extract_from_content_try_def load_fault_doc_def)
  have p: "find_headings_on_page ascii_runtime partial_page 1 =
     [\<lparr>it_level = u ''h1'', it_text = u ''1. Scope'', it_page = 1\<rparr>]"
    using r by (simp add: find_headings_on_page_def)
  from r p l show ?thesis
    by (simp add: heading_headings_of_pages)
qed

section \<open>The first-page strategy of the title\<close>

lemma sorted_le_last: "sorted xs \<Longrightarrow> x \<in> set xs \<Longrightarrow> x \<le> last xs"
  for xs :: "rat list"
  by (induction xs) auto

lemma last_filter_last: "xs \<noteq> [] \<Longrightarrow> P (last xs) \<Longrightarrow> last (filter P xs) = last xs"
proof (induction xs)
  case Nil
  then show ?case by simp
next
  case (Cons x xs)
  show ?case
  proof (cases "xs = []")
    case True
    with Cons.prems show ?thesis by simp
  next
    case False
    with Cons have ih: "last (filter P xs) = last xs" and p: "P (last xs)" by simp_all
    from False have "last xs \<in> set xs" by (rule last_in_set)
    with p have "filter P xs \<noteq> []" by (auto simp add: filter_empty_conv)
    with ih False show ?thesis by simp
  qed
qed

lemma sort_reverse_hd:
  fixes key :: "'a \<Rightarrow> rat"
  assumes "xs \<noteq> []"
  shows "\<exists>i<length xs. hd (sort_reverse key xs) = xs ! i \<and>
           (\<forall>j<length xs. key (xs ! j) \<le> key (xs ! i)) \<and>
           (\<forall>j<i. key (xs ! j) < key (xs ! i))"
proof -
  define ys where "ys = sort_key key (rev xs)"
  define k where "k = key (last ys)"
  have "length ys = length xs" by (simp add: ys_def)
  with assms have ne: "ys \<noteq> []" by auto
  have set: "set ys = set xs" by (simp add: ys_def)
  have "sorted (map key ys)" by (simp add: ys_def)
  then have "\<forall>v\<in>set (map key ys). v \<le> last (map key ys)" by (blast intro: sorted_le_last)
  then have mx: "\<forall>y\<in>set xs. key y \<le> k"
    using ne by (simp add: k_def last_map set)
  have "filter (\<lambda>y. key y = k) ys = filter (\<lambda>y. key y = k) (rev xs)"
    unfolding ys_def by (rule sort_key_stable)
  moreover have "last (filter (\<lambda>y. key y = k) ys) = last ys"
    using ne by (simp add: last_filter_last k_def)
  ultimately have "last ys = last (rev (filter (\<lambda>y. key y = k) xs))"
    by (simp add: rev_filter)
  moreover have fne: "filter (\<lambda>y. key y = k) xs \<noteq> []"
  proof -
    have "last ys \<in> set xs" using ne set last_in_set by blast
    then show ?thesis by (auto simp add: filter_empty_conv k_def)
  qed
  ultimately have hd: "hd (sort_reverse key xs) = hd (filter (\<lambda>y. key y = k) xs)"
    using ne by (simp add: sort_reverse_def ys_def [symmetric] hd_rev last_rev)
  from fne obtain x zs where "filter (\<lambda>y. key y = k) xs = x # zs"
    by (cases "filter (\<lambda>y. key y = k) xs") auto
  then obtain us vs where split: "xs = us @ x # vs" "\<forall>v\<in>set us. key v \<noteq> k" "key x = k"
    by (auto simp add: filter_eq_Cons_iff)
  with hd \<open>filter (\<lambda>y. key y = k) xs = x # zs\<close> have 1: "hd (sort_reverse key xs) = xs ! length us"
    by simp
  have xk: "key (xs ! length us) = k" using split by simp
  have le: "\<forall>j<length xs. key (xs ! j) \<le> k" using mx by simp
  have 2: "\<forall>j<length xs. key (xs ! j) \<le> key (xs ! length us)"
    using le by (simp only: xk)
  have 3: "\<forall>j<length us. key (xs ! j) < key (xs ! length us)"
  proof (intro allI impI)
    fix j
    assume j: "j < length us"
    then have "xs ! j = us ! j" using split(1) by (simp add: nth_append)
    with j have "xs ! j \<in> set us" by simp
    with split(2) have "key (xs ! j) \<noteq> k" by blast
    moreover have "j < length xs" using j split(1) by simp
    with le have "key (xs ! j) \<le> k" by blast
    ultimately show "key (xs ! j) < key (xs ! length us)" by (simp add: xk)
  qed
  have "length us < length xs" using split(1) by simp
  with 1 2 3 show ?thesis by blast
qed

lemma text_blocks_loop_stripped:
  "b \<in> set (text_blocks_loop spans) \<Longrightarrow> strip (tb_text b) = tb_text b"
  by (induction spans) (auto simp add: Let_def strip_idem split: if_splits)

lemma get_text_blocks_stripped:
  "b \<in> set (get_text_blocks_with_formatting page) \<Longrightarrow> strip (tb_text b) = tb_text b"
  by (cases page) (auto simp add: get_text_blocks_with_formatting_def text_blocks_loop_stripped)

lemma score_value_formula:
  assumes "1 < length (tb_bbox b)" and "tb_flags b = Some f"
  shows "calculate_title_score U b = Inr (score_value U b)"
    and "score_value U b =
       (let score = foldl (py_add U) 0
              ([py_mul U (tb_size b) 2, py_div U (max 0 (py_sub U 800 (tb_bbox b ! 1))) 10] @
               (if bold (the (tb_flags b)) then [20] else []) @
               (if 10 \<le> length (tb_text b) \<and> length (tb_text b) \<le> 100 then [30] else []) @
               (if py_istitle U (tb_text b) then [15] else []))
        in if py_isupper U (tb_text b) \<and> length (tb_text b) > 20
           then py_sub U score 10 else score)"
  using assms
  by (simp_all add: score_value_def calculate_title_score_def index1_def bold_flag_def Let_def)

lemma candidates_loop_filter:
  assumes "\<forall>b\<in>set blocks. strip (tb_text b) = tb_text b"
    and "\<forall>b\<in>set blocks. is_candidate U (tb_text b) \<longrightarrow>
           1 < length (tb_bbox b) \<and> (\<exists>f. tb_flags b = Some f)"
  shows "candidates_loop U blocks =
         Inr (map (to_candidate U) (filter (\<lambda>b. is_candidate U (tb_text b)) blocks))"
  using assms
proof (induction blocks)
  case Nil
  then show ?case by simp
next
  case (Cons b blocks)
  then have ih: "candidates_loop U blocks =
         Inr (map (to_candidate U) (filter (\<lambda>b. is_candidate U (tb_text b)) blocks))"
    and st: "strip (tb_text b) = tb_text b" by simp_all
  show ?case
  proof (cases "is_candidate U (tb_text b)")
    case True
    with Cons.prems obtain f where bb: "1 < length (tb_bbox b)" and fl: "tb_flags b = Some f"
      by auto
    from True st ih bb score_value_formula(1) [OF bb fl, of U] show ?thesis
      by (simp add: is_candidate_def Let_def index1_def to_candidate_def)
  next
    case False
    with st ih show ?thesis by (auto simp add: is_candidate_def Let_def)
  qed
qed

text \<open>
  C6, as the code has it. When the first page can be loaded and has a candidate, and
  every candidate has a bounding box with its two first coordinates and integer flags,
  the first-page strategy returns the cleaned text of the first candidate, in the order
  of the spans, whose score is the highest. The score is the one of the claim computed
  in float arithmetic, the terms that apply being added from the left in the order of
  the claim, except that the bonus of 30 is decided by the length of the span text as
  it is stripped, not as it is cleaned.
\<close>

theorem first_page_title:
  assumes "doc_pages doc \<noteq> []"
    and "doc_pages doc ! 0 = Inr page"
    and "cands = filter (\<lambda>b. is_candidate U (tb_text b)) (get_text_blocks_with_formatting page)"
    and "cands \<noteq> []"
    and "\<forall>b\<in>set cands. 1 < length (tb_bbox b) \<and> (\<exists>f. tb_flags b = Some f)"
  shows "(\<exists>i<length cands.
            extract_from_first_page U doc = Some (clean_text (tb_text (cands ! i))) \<and>
            (\<forall>j<length cands. score_value U (cands ! j) \<le> score_value U (cands ! i)) \<and>
            (\<forall>j<i. score_value U (cands ! j) < score_value U (cands ! i))) \<and>
         (\<forall>b\<in>set cands.
            score_value U b =
              (let score = foldl (py_add U) 0
                     ([py_mul U (tb_size b) 2,
                       py_div U (max 0 (py_sub U 800 (tb_bbox b ! 1))) 10] @
                      (if bold (the (tb_flags b)) then [20] else []) @
                      (if 10 \<le> length (tb_text b) \<and> length (tb_text b) \<le> 100
                       then [30] else []) @
                      (if py_istitle U (tb_text b) then [15] else []))
               in if py_isupper U (tb_text b) \<and> length (tb_text b) > 20
                  then py_sub U score 10 else score))"
proof -
  define blocks where "blocks = get_text_blocks_with_formatting page"
  define cs where "cs = map (to_candidate U) cands"
  have "\<forall>b\<in>set blocks. strip (tb_text b) = tb_text b"
    by (simp add: blocks_def get_text_blocks_stripped)
  moreover have "\<forall>b\<in>set blocks. is_candidate U (tb_text b) \<longrightarrow>
      1 < length (tb_bbox b) \<and> (\<exists>f. tb_flags b = Some f)"
    using assms(3,5) by (simp add: blocks_def)
  ultimately have loop: "candidates_loop U blocks = Inr cs"
    using assms(3) by (simp add: candidates_loop_filter cs_def blocks_def)
  have ne: "cs \<noteq> []" using assms(4) by (simp add: cs_def)
  have len: "length (sort_reverse cd_score cs) = length cs" by (simp add: sort_reverse_def)
  with ne have sne: "sort_reverse cd_score cs \<noteq> []" by auto
  then have hd0: "sort_reverse cd_score cs ! 0 = hd (sort_reverse cd_score cs)"
    by (simp add: hd_conv_nth)
  have res: "extract_from_first_page U doc =
      Some (clean_text (cd_text (hd (sort_reverse cd_score cs))))"
    using assms(1,2) loop sne
    by (simp add: extract_from_first_page_def extract_from_first_page_try_def page_count_def
        blocks_def [symmetric] Let_def hd0)
  from sort_reverse_hd [OF ne, of cd_score] obtain i where i: "i < length cs"
    "hd (sort_reverse cd_score cs) = cs ! i"
    "\<forall>j<length cs. cd_score (cs ! j) \<le> cd_score (cs ! i)"
    "\<forall>j<i. cd_score (cs ! j) < cd_score (cs ! i)" by blast
  have nth: "\<And>j. j < length cands \<Longrightarrow> cs ! j = to_candidate U (cands ! j)"
    by (simp add: cs_def)
  have il: "i < length cands" using i(1) by (simp add: cs_def)
  have a: "extract_from_first_page U doc = Some (clean_text (tb_text (cands ! i)))"
    using res i(2) nth [OF il] by (simp add: to_candidate_def)
  have b: "\<forall>j<length cands. score_value U (cands ! j) \<le> score_value U (cands ! i)"
  proof (intro allI impI)
    fix j
    assume j: "j < length cands"
    then have "cd_score (cs ! j) \<le> cd_score (cs ! i)" using i(3) by (simp add: cs_def)
    then show "score_value U (cands ! j) \<le> score_value U (cands ! i)"
      using nth [OF j] nth [OF il] by (simp add: to_candidate_def)
  qed
  have c: "\<forall>j<i. score_value U (cands ! j) < score_value U (cands ! i)"
  proof (intro allI impI)
    fix j
    assume j: "j < i"
    then have jl: "j < length cands" using il by simp
    from j have "cd_score (cs ! j) < cd_score (cs ! i)" using i(4) by simp
    then show "score_value U (cands ! j) < score_value U (cands ! i)"
      using nth [OF jl] nth [OF il] by (simp add: to_candidate_def)
  qed
  have d: "\<forall>b\<in>set cands.
            score_value U b =
              (let score = foldl (py_add U) 0
                     ([py_mul U (tb_size b) 2,
                       py_div U (max 0 (py_sub U 800 (tb_bbox b ! 1))) 10] @
                      (if bold (the (tb_flags b)) then [20] else []) @
                      (if 10 \<le> length (tb_text b) \<and> length (tb_text b) \<le> 100
                       then [30] else []) @
                      (if py_istitle U (tb_text b) then [15] else []))
               in if py_isupper U (tb_text b) \<and> length (tb_text b) > 20
                  then py_sub U score 10 else score)"
    using assms(5) score_value_formula(2) by blast
  from il a b c d show ?thesis by blast
qed

lemma spaced_doc_blocks:
  "get_text_blocks_with_formatting
     (Page [TextBlock
        [[\<lparr>sp_text = u ''Ab  Cd  Ef'', sp_size = 10, sp_flags = Some 0,
           sp_bbox = Some [0, 0, 90, 10]\<rparr>],
         [\<lparr>sp_text = u ''Abcdefgh'', sp_size = 12, sp_flags = Some 0,
           sp_bbox = Some [0, 0, 90, 12]\<rparr>]]]) = [spaced_block, plain_block]"
  by (simp add: get_text_blocks_with_formatting_def spaced_block_def plain_block_def Let_def
      string_eval)

lemma spaced_doc_candidates:
  "is_candidate ascii_runtime (tb_text spaced_block)"
  "is_candidate ascii_runtime (tb_text plain_block)"
  by (simp_all add: spaced_block_def plain_block_def is_candidate_def title_eval rx_eval
      string_eval)

lemma float_ops:
  "py_add ascii_runtime a b = round_double (a + b)"
  "py_sub ascii_runtime a b = round_double (a - b)"
  "py_mul ascii_runtime a b = round_double (a * b)"
  "py_div ascii_runtime a b = round_double (a / b)"
  by (simp_all add: ascii_runtime_def)

lemma spaced_doc_scores:
  "score_value ascii_runtime spaced_block = 145"
  "score_value ascii_runtime plain_block = 119"
  by (simp_all add: score_value_def calculate_title_score_def index1_def bold_flag_def bold_def
      spaced_block_def plain_block_def float_ops length_u ieee_eval)
    (simp_all add: string_eval)

lemma clean_spaced: "clean_text (tb_text spaced_block) = u ''Ab Cd Ef''"
  by (simp add: spaced_block_def clean_text_eval string_eval)

lemma rounded_doc_blocks:
  "get_text_blocks_with_formatting
     (Page [TextBlock
        [[\<lparr>sp_text = u ''Annual Report'', sp_size = 8, sp_flags = Some 0,
           sp_bbox = Some [72, 3 / 2, 300, 10]\<rparr>],
         [\<lparr>sp_text = u ''Budget Summary'',
           sp_size = 8782019273372467 / 562949953421312, sp_flags = Some 0,
           sp_bbox = Some [72, 307 / 2, 300, 170]\<rparr>]]]) = [small_block, large_block]"
  by (simp add: get_text_blocks_with_formatting_def small_block_def large_block_def Let_def
      string_eval)

lemma rounded_doc_candidates:
  "is_candidate ascii_runtime (tb_text small_block)"
  "is_candidate ascii_runtime (tb_text large_block)"
  by (simp_all add: small_block_def large_block_def is_candidate_def title_eval rx_eval
      string_eval)

lemma rounded_doc_scores:
  "score_value ascii_runtime small_block = 4955718808711987 / 35184372088832"
  "score_value ascii_runtime large_block = 1238929702177997 / 8796093022208"
  by (simp_all add: score_value_def calculate_title_score_def index1_def bold_flag_def bold_def
      small_block_def large_block_def float_ops length_u ieee_eval)
    (simp_all add: string_eval)

lemma clean_large: "clean_text (tb_text large_block) = u ''Budget Summary''"
  by (simp add: large_block_def clean_text_eval string_eval)

theorem first_page_title_witness:
  "doc_pages rounded_doc \<noteq> [] \<and>
   doc_pages rounded_doc ! 0 =
     Inr (Page [TextBlock
       [[\<lparr>sp_text = u ''Annual Report'', sp_size = 8, sp_flags = Some 0,
          sp_bbox = Some [72, 3 / 2, 300, 10]\<rparr>],
        [\<lparr>sp_text = u ''Budget Summary'',
          sp_size = 8782019273372467 / 562949953421312, sp_flags = Some 0,
          sp_bbox = Some [72, 307 / 2, 300, 170]\<rparr>]]]) \<and>
   [small_block, large_block] =
     filter (\<lambda>b. is_candidate ascii_runtime (tb_text b))
       (get_text_blocks_with_formatting
          (Page [TextBlock
             [[\<lparr>sp_text = u ''Annual Report'', sp_size = 8, sp_flags = Some 0,
                sp_bbox = Some [72, 3 / 2, 300, 10]\<rparr>],
              [\<lparr>sp_text = u ''Budget Summary'',
                sp_size = 8782019273372467 / 562949953421312, sp_flags = Some 0,
                sp_bbox = Some [72, 307 / 2, 300, 170]\<rparr>]]])) \<and>
   list_all (\<lambda>b. 1 < length (tb_bbox b) \<and> (\<exists>f. tb_flags b = Some f))
     [small_block, large_block] \<and>
   score_value ascii_runtime small_block = 4955718808711987 / 35184372088832 \<and>
   score_value ascii_runtime large_block = 1238929702177997 / 8796093022208 \<and>
   extract_from_first_page ascii_runtime rounded_doc = Some (u ''Budget Summary'')"
proof -
  have h1: "doc_pages rounded_doc \<noteq> []" by (simp add: rounded_doc_def)
  have h2: "doc_pages rounded_doc ! 0 =
     Inr (Page [TextBlock
       [[\<lparr>sp_text = u ''Annual Report'', sp_size = 8, sp_flags = Some 0,
          sp_bbox = Some [72, 3 / 2, 300, 10]\<rparr>],
        [\<lparr>sp_text = u ''Budget Summary'',
          sp_size = 8782019273372467 / 562949953421312, sp_flags = Some 0,
          sp_bbox = Some [72, 307 / 2, 300, 170]\<rparr>]]])"
    by (simp add: rounded_doc_def)
  have h3: "[small_block, large_block] =
     filter (\<lambda>b. is_candidate ascii_runtime (tb_text b))
       (get_text_blocks_with_formatting
          (Page [TextBlock
             [[\<lparr>sp_text = u ''Annual Report'', sp_size = 8, sp_flags = Some 0,
                sp_bbox = Some [72, 3 / 2, 300, 10]\<rparr>],
              [\<lparr>sp_text = u ''Budget Summary'',
                sp_size = 8782019273372467 / 562949953421312, sp_flags = Some 0,
                sp_bbox = Some [72, 307 / 2, 300, 170]\<rparr>]]]))"
    by (simp add: rounded_doc_blocks rounded_doc_candidates)
  have h4: "[small_block, large_block] \<noteq> []" by simp
  have h5: "\<forall>b\<in>set [small_block, large_block].
      1 < length (tb_bbox b) \<and> (\<exists>f. tb_flags b = Some f)"
    by (simp add: small_block_def large_block_def)
  from first_page_title [OF h1 h2 h3 h4 h5]
  have "\<exists>i<length [small_block, large_block].
          extract_from_first_page ascii_runtime rounded_doc =
            Some (clean_text (tb_text ([small_block, large_block] ! i))) \<and>
          (\<forall>j<length [small_block, large_block].
             score_value ascii_runtime ([small_block, large_block] ! j)
               \<le> score_value ascii_runtime ([small_block, large_block] ! i)) \<and>
          (\<forall>j<i. score_value ascii_runtime ([small_block, large_block] ! j)
               < score_value ascii_runtime ([small_block, large_block] ! i))"
    by (rule conjunct1)
  then obtain i where i: "i < length [small_block, large_block]"
    "extract_from_first_page ascii_runtime rounded_doc =
       Some (clean_text (tb_text ([small_block, large_block] ! i)))"
    "\<forall>j<length [small_block, large_block].
       score_value ascii_runtime ([small_block, large_block] ! j)
         \<le> score_value ascii_runtime ([small_block, large_block] ! i)"
    by blast
  have "i = Suc 0"
  proof (rule ccontr)
    assume "i \<noteq> Suc 0"
    with i(1) have i0: "i = 0" by simp
    have "Suc 0 < length [small_block, large_block]" by simp
    with i(3) have "score_value ascii_runtime ([small_block, large_block] ! Suc 0)
        \<le> score_value ascii_runtime ([small_block, large_block] ! i)" by blast
    with i0 have "score_value ascii_runtime large_block \<le> score_value ascii_runtime small_block"
      by simp
    then show False by (simp add: rounded_doc_scores)
  qed
  with i(2) have "extract_from_first_page ascii_runtime rounded_doc = Some (u ''Budget Summary'')"
    by (simp add: clean_large)
  moreover from h5 have "list_all (\<lambda>b. 1 < length (tb_bbox b) \<and> (\<exists>f. tb_flags b = Some f))
     [small_block, large_block]"
    by (simp add: list_all_iff)
  ultimately show ?thesis using h1 h2 h3 rounded_doc_scores by blast
qed

text \<open>
  On \<open>spaced_doc\<close> the code returns the first span, whose stripped text has ten
  characters and scores 145 against 119; with the length of the cleaned text, eight
  characters, the first span would score 115 and the second would be returned.
\<close>

theorem first_page_title_counterexample:
  "extract_from_first_page ascii_runtime spaced_doc = Some (clean_text (tb_text spaced_block)) \<and>
   clean_text (tb_text spaced_block) = u ''Ab Cd Ef'' \<and>
   spec_title_score ascii_runtime spaced_block = 115 \<and>
   spec_title_score ascii_runtime plain_block = 119"
proof -
  have "candidates_loop ascii_runtime [spaced_block, plain_block] =
        Inr (map (to_candidate ascii_runtime) [spaced_block, plain_block])"
    using candidates_loop_filter [of "[spaced_block, plain_block]" ascii_runtime]
      spaced_doc_candidates
    by (simp add: spaced_block_def plain_block_def string_eval)
  then have "extract_from_first_page ascii_runtime spaced_doc =
             Some (clean_text (tb_text spaced_block))"
    using spaced_doc_blocks
    by (simp add: extract_from_first_page_def extract_from_first_page_try_def page_count_def
        spaced_doc_def sort_reverse_def to_candidate_def spaced_doc_scores Let_def)
  moreover have "clean_text (tb_text plain_block) = u ''Abcdefgh''"
    by (simp add: plain_block_def clean_text_eval string_eval)
  then have "spec_title_score ascii_runtime spaced_block = 115"
    "spec_title_score ascii_runtime plain_block = 119"
    by (simp_all add: spec_title_score_def clean_spaced length_u bold_def float_ops)
      (simp_all add: spaced_block_def plain_block_def length_u ieee_eval, simp_all add: string_eval)
  ultimately show ?thesis by (simp add: clean_spaced)
qed

end
